theory Spec2Isabelle
  imports Main "HOL-Library.Char_ord" "HOL-Library.List_Lexorder"
begin

section \<open>Strings of the Python program\<close>

text \<open>
  The extractor (\<^verbatim>\<open>src/main.py\<close>) and the reconciler (\<^verbatim>\<open>src/scripts.py\<close>) are Python
  scripts. A Python \<^verbatim>\<open>str\<close> is modelled as a \<^typ>\<open>string\<close>, one \<^typ>\<open>char\<close> per code point,
  so the model covers text whose code points are below 256. On that range the character
  classes below are the ones Python uses: \<^verbatim>\<open>str.isspace\<close> for \<^verbatim>\<open>strip()\<close>, the class
  \<^verbatim>\<open>\w\<close> of \<^verbatim>\<open>re\<close> for \<^verbatim>\<open>\b\<close>, and \<^verbatim>\<open>str.lower\<close>.
\<close>

abbreviation newline :: char where
  "newline \<equiv> CHR 0x0A"

definition is_space :: "char \<Rightarrow> bool" where
  "is_space c =
     (let n = (of_char c :: nat)
      in (9 \<le> n \<and> n \<le> 13) \<or> (28 \<le> n \<and> n \<le> 32) \<or> n = 133 \<or> n = 160)"

definition is_word_char :: "char \<Rightarrow> bool" where
  "is_word_char c =
     (let n = (of_char c :: nat)
      in (48 \<le> n \<and> n \<le> 57) \<or> (65 \<le> n \<and> n \<le> 90) \<or> n = 95 \<or> (97 \<le> n \<and> n \<le> 122) \<or>
         n = 170 \<or> n = 178 \<or> n = 179 \<or> n = 181 \<or> n = 185 \<or> n = 186 \<or>
         (188 \<le> n \<and> n \<le> 190) \<or> (192 \<le> n \<and> n \<noteq> 215 \<and> n \<noteq> 247))"

definition lower_char :: "char \<Rightarrow> char" where
  "lower_char c =
     (let n = (of_char c :: nat)
      in if (65 \<le> n \<and> n \<le> 90) \<or> (192 \<le> n \<and> n \<le> 222 \<and> n \<noteq> 215)
         then char_of (n + 32) else c)"

definition lower :: "string \<Rightarrow> string" where
  "lower s = map lower_char s"

definition strip :: "string \<Rightarrow> string" where
  "strip s = rev (dropWhile is_space (rev (dropWhile is_space s)))"

definition endswith :: "string \<Rightarrow> string \<Rightarrow> bool" where
  "endswith s suffix = (length suffix \<le> length s \<and> drop (length s - length suffix) s = suffix)"

text \<open>\<^verbatim>\<open>s.split(sep)\<close> for a one-character separator: never an empty list.\<close>

fun split_on :: "char \<Rightarrow> string \<Rightarrow> string list" where
  "split_on sep [] = [[]]"
| "split_on sep (c # cs) =
     (if c = sep then [] # split_on sep cs
      else (let r = split_on sep cs in (c # hd r) # tl r))"

text \<open>\<^verbatim>\<open>sep.join(parts)\<close>.\<close>

fun join :: "string \<Rightarrow> string list \<Rightarrow> string" where
  "join sep [] = []"
| "join sep [x] = x"
| "join sep (x # y # ys) = x @ sep @ join sep (y # ys)"

definition char_at :: "string \<Rightarrow> nat \<Rightarrow> char option" where
  "char_at s i = (if i < length s then Some (s ! i) else None)"

section \<open>Errors\<close>

text \<open>
  Exceptions are values. \<open>py_exn\<close> ranges over subclasses of Python's \<^verbatim>\<open>Exception\<close>, the
  class the handlers of the program name; a function that can raise returns
  \<open>py_exn + 'a\<close>, with \<open>Inl\<close> for the exception.
\<close>

datatype py_exn = JSONDecodeError | AttributeError | OtherException string

definition bind_exn :: "py_exn + 'a \<Rightarrow> ('a \<Rightarrow> py_exn + 'b) \<Rightarrow> py_exn + 'b" where
  "bind_exn r f = (case r of Inl e \<Rightarrow> Inl e | Inr v \<Rightarrow> f v)"

text \<open>\<^verbatim>\<open>try: body  except Exception: handler\<close> catches every \<open>py_exn\<close>.\<close>

definition try_except_Exception :: "py_exn + 'a \<Rightarrow> (py_exn \<Rightarrow> py_exn + 'a) \<Rightarrow> py_exn + 'a" where
  "try_except_Exception body handler = (case body of Inl e \<Rightarrow> handler e | Inr v \<Rightarrow> Inr v)"

text \<open>\<^verbatim>\<open>try: body  except json.JSONDecodeError: handler\<close> lets every other exception pass.\<close>

definition try_except_JSONDecodeError :: "py_exn + 'a \<Rightarrow> (py_exn + 'a) \<Rightarrow> py_exn + 'a" where
  "try_except_JSONDecodeError body handler =
     (case body of Inl JSONDecodeError \<Rightarrow> handler | Inl e \<Rightarrow> Inl e | Inr v \<Rightarrow> Inr v)"

section \<open>Text extraction\<close>

definition MAX_TEXT_LENGTH :: nat where
  "MAX_TEXT_LENGTH = 5000"

text \<open>
  \<^verbatim>\<open>extract_text_from_docx\<close> (main.py, lines 55-66). Its argument is what
  \<^verbatim>\<open>Document(doc_path)\<close> gives: the texts of the paragraphs, or the exception of a failed read.
\<close>

type_synonym document = "py_exn + string list"

definition extract_text_from_docx :: "document \<Rightarrow> py_exn + string" where
  "extract_text_from_docx doc =
     try_except_Exception
       (bind_exn doc (\<lambda>paragraphs.
          let lines = map strip (filter (\<lambda>p. strip p \<noteq> []) paragraphs);
              extracted_text = join [newline] lines
          in Inr (if length extracted_text > MAX_TEXT_LENGTH
                  then take MAX_TEXT_LENGTH extracted_text else extracted_text)))
       (\<lambda>e. Inr [])"

section \<open>Location cleanup\<close>

text \<open>
  \<^verbatim>\<open>clean_location\<close> (main.py, lines 68-74). The pattern
  \<^verbatim>\<open>\b(highway|road|street|main|lane)\b.*\<close> is compiled with \<^verbatim>\<open>re.IGNORECASE\<close> only, so
  \<^verbatim>\<open>.\<close> stops at a newline. \<open>roadway_match prev s\<close> is the length of the match of the
  pattern at the head of \<open>s\<close>, where \<open>prev\<close> is the character before it, and
  \<open>re_sub_roadway\<close> is \<^verbatim>\<open>re.sub\<close> with the empty replacement: every match, left to right.
\<close>

definition roadway_keywords :: "string list" where
  "roadway_keywords = [''highway'', ''road'', ''street'', ''main'', ''lane'']"

definition is_word_opt :: "char option \<Rightarrow> bool" where
  "is_word_opt x = (case x of None \<Rightarrow> False | Some c \<Rightarrow> is_word_char c)"

definition word_boundary :: "char option \<Rightarrow> char option \<Rightarrow> bool" where
  "word_boundary a b = (is_word_opt a \<noteq> is_word_opt b)"

definition ci_prefix :: "string \<Rightarrow> string \<Rightarrow> bool" where
  "ci_prefix k s = (length k \<le> length s \<and> lower (take (length k) s) = lower k)"

definition keyword_here :: "string \<Rightarrow> string \<Rightarrow> bool" where
  "keyword_here s k =
     (ci_prefix k s \<and> word_boundary (char_at s (length k - 1)) (char_at s (length k)))"

definition roadway_match :: "char option \<Rightarrow> string \<Rightarrow> nat option" where
  "roadway_match prev s =
     (if \<not> word_boundary prev (char_at s 0) then None
      else (case filter (keyword_here s) roadway_keywords of
              [] \<Rightarrow> None
            | k # _ \<Rightarrow>
                Some (length k + length (takeWhile (\<lambda>c. c \<noteq> newline) (drop (length k) s)))))"

fun re_sub_roadway :: "char option \<Rightarrow> string \<Rightarrow> string" where
  "re_sub_roadway prev [] = []"
| "re_sub_roadway prev (c # cs) =
     (case roadway_match prev (c # cs) of
        Some n \<Rightarrow> re_sub_roadway (char_at (c # cs) (n - 1)) (drop (n - 1) cs)
      | None \<Rightarrow> c # re_sub_roadway (Some c) cs)"

definition clean_location :: "string \<Rightarrow> string" where
  "clean_location location =
     (if location = [] then []
      else if CHR '','' \<in> set location then strip (last (split_on (CHR '','') location))
      else strip (re_sub_roadway None location))"

section \<open>JSON\<close>

text \<open>
  \<^verbatim>\<open>json.loads\<close> is the standard decoder. It is modelled by a lexer and a stack parser for
  the grammar the decoder accepts: objects, arrays, strings with their escapes (control
  characters inside a string are refused), numbers, \<^verbatim>\<open>true\<close>, \<^verbatim>\<open>false\<close>, \<^verbatim>\<open>null\<close>, and the
  constants \<^verbatim>\<open>NaN\<close>, \<^verbatim>\<open>Infinity\<close>, \<^verbatim>\<open>-Infinity\<close>, between the whitespace characters space, tab,
  line feed and carriage return. A number keeps its literal: the program only ever asks
  whether a value is a string. An escape \<^verbatim>\<open>\uXXXX\<close> is decoded when it names a code point
  below 256 and refused otherwise (such replies are outside this model, as are the
  interpreter's limits on nesting depth and on the digits of an integer). An object
  keeps its members in the order of the text; a lookup takes the last one of a repeated
  key, as the \<^verbatim>\<open>dict\<close> that Python builds does.
\<close>

datatype json =
    JNull
  | JBool bool
  | JNumber string
  | JString string
  | JArray "json list"
  | JObject "(string \<times> json) list"

datatype token =
    TLBrace | TRBrace | TLBracket | TRBracket | TColon | TComma
  | TStr string
  | TAtom json

definition is_digit :: "char \<Rightarrow> bool" where
  "is_digit c = (let n = (of_char c :: nat) in 48 \<le> n \<and> n \<le> 57)"

definition is_hex_digit :: "char \<Rightarrow> bool" where
  "is_hex_digit c =
     (let n = (of_char c :: nat)
      in (48 \<le> n \<and> n \<le> 57) \<or> (65 \<le> n \<and> n \<le> 70) \<or> (97 \<le> n \<and> n \<le> 102))"

definition hex_digit_value :: "char \<Rightarrow> nat" where
  "hex_digit_value c =
     (let n = (of_char c :: nat)
      in if n \<le> 57 then n - 48 else if n \<le> 70 then n - 55 else n - 87)"

definition hex_value :: "string \<Rightarrow> nat" where
  "hex_value h = foldl (\<lambda>acc c. 16 * acc + hex_digit_value c) 0 h"

definition is_json_space :: "char \<Rightarrow> bool" where
  "is_json_space c = (c = CHR '' '' \<or> c = CHR 0x09 \<or> c = CHR 0x0A \<or> c = CHR 0x0D)"

text \<open>The characters of numbers and of the literal names.\<close>

definition is_atom_char :: "char \<Rightarrow> bool" where
  "is_atom_char c =
     (let n = (of_char c :: nat)
      in (48 \<le> n \<and> n \<le> 57) \<or> (65 \<le> n \<and> n \<le> 90) \<or> (97 \<le> n \<and> n \<le> 122) \<or>
         c = CHR ''+'' \<or> c = CHR ''-'' \<or> c = CHR ''.'')"

text \<open>The exponent part of a number, possibly absent: \<^verbatim>\<open>([eE][-+]?\d+)?\<close>.\<close>

definition valid_exponent :: "string \<Rightarrow> bool" where
  "valid_exponent r =
     (case r of
        [] \<Rightarrow> True
      | e # r1 \<Rightarrow>
          (e = CHR ''e'' \<or> e = CHR ''E'') \<and>
          (let r2 = (case r1 of [] \<Rightarrow> [] | s # r3 \<Rightarrow> if s = CHR ''+'' \<or> s = CHR ''-'' then r3 else r1)
           in r2 \<noteq> [] \<and> list_all is_digit r2))"

text \<open>\<^verbatim>\<open>(-?(?:0|[1-9]\d*))(\.\d+)?([eE][-+]?\d+)?\<close>, the whole literal.\<close>

definition valid_number :: "string \<Rightarrow> bool" where
  "valid_number a =
     (let a1 = (case a of [] \<Rightarrow> [] | m # r \<Rightarrow> if m = CHR ''-'' then r else a);
          ip = takeWhile is_digit a1;
          r1 = dropWhile is_digit a1
      in ip \<noteq> [] \<and> (hd ip = CHR ''0'' \<longrightarrow> ip = ''0'') \<and>
         (case r1 of
            [] \<Rightarrow> True
          | d # r2 \<Rightarrow>
              if d = CHR ''.''
              then takeWhile is_digit r2 \<noteq> [] \<and> valid_exponent (dropWhile is_digit r2)
              else valid_exponent r1))"

definition atom_token :: "string \<Rightarrow> token option" where
  "atom_token a =
     (if a = ''null'' then Some (TAtom JNull)
      else if a = ''true'' then Some (TAtom (JBool True))
      else if a = ''false'' then Some (TAtom (JBool False))
      else if a = ''NaN'' \<or> a = ''Infinity'' \<or> a = ''-Infinity'' then Some (TAtom (JNumber a))
      else if valid_number a then Some (TAtom (JNumber a))
      else None)"

definition unescape :: "char \<Rightarrow> char option" where
  "unescape c =
     (if c = CHR 0x22 then Some (CHR 0x22)
      else if c = CHR 0x5C then Some (CHR 0x5C)
      else if c = CHR ''/'' then Some (CHR ''/'')
      else if c = CHR ''b'' then Some (CHR 0x08)
      else if c = CHR ''f'' then Some (CHR 0x0C)
      else if c = CHR ''n'' then Some (CHR 0x0A)
      else if c = CHR ''r'' then Some (CHR 0x0D)
      else if c = CHR ''t'' then Some (CHR 0x09)
      else None)"

datatype lex_state =
    LNormal
  | LAtom string
  | LString string
  | LEscape string
  | LUnicode string string

text \<open>
  The lexer reads one character at a time. The text read so far of an atom or of a string
  is kept reversed; \<open>acc\<close> is the reversed list of the tokens found.
\<close>

function lex :: "lex_state \<Rightarrow> token list \<Rightarrow> string \<Rightarrow> token list option" where
  "lex LNormal acc [] = Some (rev acc)"
| "lex (LAtom a) acc [] =
     (case atom_token (rev a) of None \<Rightarrow> None | Some t \<Rightarrow> Some (rev (t # acc)))"
| "lex (LString s) acc [] = None"
| "lex (LEscape s) acc [] = None"
| "lex (LUnicode s h) acc [] = None"
| "lex LNormal acc (c # cs) =
     (if is_json_space c then lex LNormal acc cs
      else if c = CHR ''{'' then lex LNormal (TLBrace # acc) cs
      else if c = CHR ''}'' then lex LNormal (TRBrace # acc) cs
      else if c = CHR ''['' then lex LNormal (TLBracket # acc) cs
      else if c = CHR '']'' then lex LNormal (TRBracket # acc) cs
      else if c = CHR '':'' then lex LNormal (TColon # acc) cs
      else if c = CHR '','' then lex LNormal (TComma # acc) cs
      else if c = CHR 0x22 then lex (LString []) acc cs
      else if is_atom_char c then lex (LAtom [c]) acc cs
      else None)"
| "lex (LAtom a) acc (c # cs) =
     (if is_atom_char c then lex (LAtom (c # a)) acc cs
      else (case atom_token (rev a) of
              None \<Rightarrow> None
            | Some t \<Rightarrow> lex LNormal (t # acc) (c # cs)))"
| "lex (LString s) acc (c # cs) =
     (if c = CHR 0x22 then lex LNormal (TStr (rev s) # acc) cs
      else if c = CHR 0x5C then lex (LEscape s) acc cs
      else if (of_char c :: nat) < 32 then None
      else lex (LString (c # s)) acc cs)"
| "lex (LEscape s) acc (c # cs) =
     (if c = CHR ''u'' then lex (LUnicode s []) acc cs
      else (case unescape c of
              None \<Rightarrow> None
            | Some d \<Rightarrow> lex (LString (d # s)) acc cs))"
| "lex (LUnicode s h) acc (c # cs) =
     (if \<not> is_hex_digit c then None
      else if length h < 3 then lex (LUnicode s (h @ [c])) acc cs
      else if hex_value (h @ [c]) < 256
           then lex (LString (char_of (hex_value (h @ [c])) # s)) acc cs
      else None)"
  by pat_completeness auto
termination
  by (relation "measure (\<lambda>(st, acc, s). 2 * length s + (case st of LAtom a \<Rightarrow> 1 | _ \<Rightarrow> 0))") auto

text \<open>
  The parser keeps the containers that are still open on a stack: an array with its
  elements so far, an object with its members so far and the key whose value is being
  read (both reversed).
\<close>

datatype frame =
    ArrF "json list"
  | ObjF "(string \<times> json) list" "string option"

datatype pstate =
    PValue
  | PArrStart
  | PObjStart
  | PObjKey
  | PColon
  | PAfter
  | PDone json

text \<open>A value is complete: it goes into the innermost open container.\<close>

fun push_value :: "json \<Rightarrow> frame list \<Rightarrow> (pstate \<times> frame list) option" where
  "push_value v [] = Some (PDone v, [])"
| "push_value v (ArrF els # st) = Some (PAfter, ArrF (v # els) # st)"
| "push_value v (ObjF ms (Some k) # st) = Some (PAfter, ObjF ((k, v) # ms) None # st)"
| "push_value v (ObjF ms None # st) = None"

fun begin_value :: "token \<Rightarrow> frame list \<Rightarrow> (pstate \<times> frame list) option" where
  "begin_value (TStr s) st = push_value (JString s) st"
| "begin_value (TAtom v) st = push_value v st"
| "begin_value TLBrace st = Some (PObjStart, ObjF [] None # st)"
| "begin_value TLBracket st = Some (PArrStart, ArrF [] # st)"
| "begin_value t st = None"

fun begin_key :: "token \<Rightarrow> frame list \<Rightarrow> (pstate \<times> frame list) option" where
  "begin_key (TStr k) (ObjF ms None # st) = Some (PColon, ObjF ms (Some k) # st)"
| "begin_key t st = None"

fun parse_step :: "pstate \<Rightarrow> frame list \<Rightarrow> token \<Rightarrow> (pstate \<times> frame list) option" where
  "parse_step PValue st t = begin_value t st"
| "parse_step PArrStart (ArrF els # st) TRBracket = push_value (JArray (rev els)) st"
| "parse_step PArrStart st t = begin_value t st"
| "parse_step PObjStart (ObjF ms None # st) TRBrace = push_value (JObject (rev ms)) st"
| "parse_step PObjStart st t = begin_key t st"
| "parse_step PObjKey st t = begin_key t st"
| "parse_step PColon st TColon = Some (PValue, st)"
| "parse_step PColon st t = None"
| "parse_step PAfter (ArrF els # st) TComma = Some (PValue, ArrF els # st)"
| "parse_step PAfter (ArrF els # st) TRBracket = push_value (JArray (rev els)) st"
| "parse_step PAfter (ObjF ms None # st) TComma = Some (PObjKey, ObjF ms None # st)"
| "parse_step PAfter (ObjF ms None # st) TRBrace = push_value (JObject (rev ms)) st"
| "parse_step PAfter st t = None"
| "parse_step (PDone v) st t = None"

fun parse_tokens :: "pstate \<Rightarrow> frame list \<Rightarrow> token list \<Rightarrow> json option" where
  "parse_tokens (PDone v) [] [] = Some v"
| "parse_tokens p st [] = None"
| "parse_tokens p st (t # ts) =
     (case parse_step p st t of
        None \<Rightarrow> None
      | Some (p', st') \<Rightarrow> parse_tokens p' st' ts)"

definition json_loads :: "string \<Rightarrow> py_exn + json" where
  "json_loads s =
     (case lex LNormal [] s of
        None \<Rightarrow> Inl JSONDecodeError
      | Some ts \<Rightarrow>
          (case parse_tokens PValue [] ts of
             None \<Rightarrow> Inl JSONDecodeError
           | Some v \<Rightarrow> Inr v))"

section \<open>Metadata inference\<close>

type_synonym metadata = "string \<times> string \<times> string \<times> string \<times> string"

definition default_metadata :: metadata where
  "default_metadata =
     (''Unknown'', ''Unknown'', ''Unknown Department'', ''Unknown'', ''Unknown'')"

text \<open>
  \<^verbatim>\<open>parsed.get(key, default)\<close>: only a \<^verbatim>\<open>dict\<close> has the method, and \<^verbatim>\<open>.strip()\<close> exists on
  a string only; on every other value the attribute lookup raises \<^verbatim>\<open>AttributeError\<close>.
\<close>

definition dict_lookup :: "(string \<times> json) list \<Rightarrow> string \<Rightarrow> json option" where
  "dict_lookup members key = map_of (rev members) key"

definition dict_get :: "json \<Rightarrow> string \<Rightarrow> string \<Rightarrow> py_exn + json" where
  "dict_get parsed key dflt =
     (case parsed of
        JObject members \<Rightarrow>
          (case dict_lookup members key of None \<Rightarrow> Inr (JString dflt) | Some v \<Rightarrow> Inr v)
      | _ \<Rightarrow> Inl AttributeError)"

definition str_strip :: "json \<Rightarrow> py_exn + string" where
  "str_strip v = (case v of JString s \<Rightarrow> Inr (strip s) | _ \<Rightarrow> Inl AttributeError)"

definition get_stripped :: "json \<Rightarrow> string \<Rightarrow> string \<Rightarrow> py_exn + string" where
  "get_stripped parsed key dflt = bind_exn (dict_get parsed key dflt) str_strip"

text \<open>Lines 114-119 of main.py, and again 124-129: the five fields of the parsed value.\<close>

definition read_fields :: "json \<Rightarrow> py_exn + metadata" where
  "read_fields parsed =
     bind_exn (get_stripped parsed ''state'' ''Unknown'') (\<lambda>state.
     bind_exn (get_stripped parsed ''location'' ''Unknown'') (\<lambda>loc.
     let location = clean_location loc in
     bind_exn (get_stripped parsed ''department'' ''Unknown Department'') (\<lambda>department.
     bind_exn (get_stripped parsed ''audit_conducted_year'' ''Unknown'') (\<lambda>audit_year.
     bind_exn (get_stripped parsed ''financial_year'' ''Unknown'') (\<lambda>financial_year.
     Inr (state, location, department, audit_year, financial_year))))))"

text \<open>
  \<^verbatim>\<open>re.search(r'\{.*\}', content, re.DOTALL)\<close>: the leftmost match starts at the first
  \<^verbatim>\<open>{\<close>, and the greedy \<^verbatim>\<open>.*\<close>, which crosses newlines here, runs to the last \<^verbatim>\<open>}\<close> of the
  text. The result is \<^verbatim>\<open>json_match.group()\<close>, or \<open>None\<close> when nothing matches.
\<close>

definition re_search_braces :: "string \<Rightarrow> string option" where
  "re_search_braces content =
     (case dropWhile (\<lambda>c. c \<noteq> CHR ''{'') content of
        [] \<Rightarrow> None
      | b # rest \<Rightarrow>
          (case dropWhile (\<lambda>c. c \<noteq> CHR ''}'') (rev rest) of
             [] \<Rightarrow> None
           | e # body \<Rightarrow> Some (b # rev (e # body))))"

text \<open>The inner \<^verbatim>\<open>try\<close> of \<^verbatim>\<open>analyze_ir_content\<close> with its handler (lines 112-130).\<close>

definition parse_reply :: "string \<Rightarrow> py_exn + metadata" where
  "parse_reply content =
     try_except_JSONDecodeError
       (bind_exn (json_loads content) read_fields)
       (case re_search_braces content of
          Some json_match \<Rightarrow> bind_exn (json_loads json_match) read_fields
        | None \<Rightarrow> Inr default_metadata)"

text \<open>
  \<^verbatim>\<open>analyze_ir_content\<close> (lines 76-133). \<open>llm\<close> stands for \<^verbatim>\<open>llm.invoke\<close> with the fixed
  system prompt: from the text of the document to the content of the reply, or to the
  exception of a failed call. The second component of the result lists the requests
  that were sent to the model.
\<close>

definition analyze_ir_content ::
  "(string \<Rightarrow> py_exn + string) \<Rightarrow> string \<Rightarrow> (py_exn + metadata) \<times> string list" where
  "analyze_ir_content llm doc_text =
     (if doc_text = [] then (Inr default_metadata, [])
      else (try_except_Exception
              (bind_exn (llm doc_text) (\<lambda>response. parse_reply (strip response)))
              (\<lambda>e. Inr default_metadata),
            [doc_text]))"

text \<open>A model that answers every request with the same reply.\<close>

definition fixed_reply :: "string \<Rightarrow> string \<Rightarrow> py_exn + string" where
  "fixed_reply reply doc_text = Inr reply"

section \<open>The results file and the batch driver\<close>

text \<open>
  A row of the results spreadsheet has the six columns of the program; a table is the
  list of its rows (\<^verbatim>\<open>pd.DataFrame(rows)\<close>), and the table without rows is the
  spreadsheet that has the header only.
\<close>

record row =
  Filename :: string
  State :: string
  Location :: string
  Department :: string
  Audit_Conducted_Year :: string
  Financial_Year :: string

type_synonym table = "row list"

definition blank_row :: row where
  "blank_row =
     \<lparr>Filename = [], State = [], Location = [], Department = [],
      Audit_Conducted_Year = [], Financial_Year = []\<rparr>"

text \<open>
  The input folder is a tree: a file has a name and the document that opening it gives,
  a directory has a name and its entries, in the order in which the system lists them.
\<close>

datatype node =
    FileN string document
  | DirN string "node list"

fun node_name :: "node \<Rightarrow> string" where
  "node_name (FileN name doc) = name"
| "node_name (DirN name entries) = name"

fun is_dir :: "node \<Rightarrow> bool" where
  "is_dir (FileN name doc) = False"
| "is_dir (DirN name entries) = True"

text \<open>\<^verbatim>\<open>os.listdir\<close>: the names of the entries, files and directories alike.\<close>

definition listdir :: "node list \<Rightarrow> string list" where
  "listdir entries = map node_name entries"

fun files_in :: "node list \<Rightarrow> (string \<times> document) list" where
  "files_in [] = []"
| "files_in (FileN name doc # entries) = (name, doc) # files_in entries"
| "files_in (DirN name sub # entries) = files_in entries"

text \<open>
  \<^verbatim>\<open>os.walk\<close>, top-down: the files of a directory, then its subdirectories one after
  the other. The two nested \<^verbatim>\<open>for\<close> loops of \<^verbatim>\<open>main_process\<close> visit the files in this order.
\<close>

fun walk_files :: "node \<Rightarrow> (string \<times> document) list" where
  "walk_files (FileN name doc) = []"
| "walk_files (DirN name entries) =
     files_in entries @ concat (map walk_files (filter is_dir entries))"

definition os_walk :: "node list \<Rightarrow> (string \<times> document) list" where
  "os_walk entries = walk_files (DirN [] entries)"

text \<open>
  The world outside the program: the model behind \<open>llm\<close>, and the disk, where the
  \<open>n\<close>-th attempt to write the results file may raise (\<open>write_fault n\<close>). The state holds
  the results file (\<open>None\<close> while it does not exist), every content it was given so far,
  oldest first, the number of write attempts, the requests sent to the model, and the
  log of both in the order in which they happened: a request to the model, a completed
  write of the results file.
\<close>

datatype event =
    Request string
  | Write table

record env =
  llm :: "string \<Rightarrow> py_exn + string"
  write_fault :: "nat \<Rightarrow> py_exn option"

record world =
  results_file :: "table option"
  persisted :: "table list"
  writes :: nat
  requests :: "string list"
  events :: "event list"

text \<open>\<^verbatim>\<open>pd.DataFrame(...).to_excel(RESULTS_FILE, ...)\<close>: the file is replaced as a whole.\<close>

definition to_excel :: "env \<Rightarrow> table \<Rightarrow> world \<Rightarrow> (py_exn + unit) \<times> world" where
  "to_excel env tbl w =
     (case write_fault env (writes w) of
        Some e \<Rightarrow> (Inl e, w\<lparr>writes := Suc (writes w)\<rparr>)
      | None \<Rightarrow>
          (Inr (), w\<lparr>results_file := Some tbl, persisted := persisted w @ [tbl],
                     events := events w @ [Write tbl], writes := Suc (writes w)\<rparr>))"

text \<open>The requests that the inference of one document sent go into the logs.\<close>

definition log_requests :: "string list \<Rightarrow> world \<Rightarrow> world" where
  "log_requests sent w =
     w\<lparr>requests := requests w @ sent, events := events w @ map Request sent\<rparr>"

definition is_docx :: "string \<Rightarrow> bool" where
  "is_docx fname = endswith (lower fname) ''.docx''"

text \<open>Lines 157-168: the text of the document, its metadata, the row.\<close>

definition infer_row :: "env \<Rightarrow> string \<times> document \<Rightarrow> (py_exn + row) \<times> string list" where
  "infer_row env f =
     (case extract_text_from_docx (snd f) of
        Inl e \<Rightarrow> (Inl e, [])
      | Inr text \<Rightarrow>
          (case analyze_ir_content (llm env) text of
             (Inl e, sent) \<Rightarrow> (Inl e, sent)
           | (Inr (state, location, department, audit_year, financial_year), sent) \<Rightarrow>
               (Inr \<lparr>Filename = fst f, State = state, Location = location,
                     Department = department, Audit_Conducted_Year = audit_year,
                     Financial_Year = financial_year\<rparr>, sent)))"

text \<open>The loop of lines 152-171 over the files that \<^verbatim>\<open>os.walk\<close> gives.\<close>

fun process_files ::
  "env \<Rightarrow> (string \<times> document) list \<Rightarrow> row list \<Rightarrow> world \<Rightarrow> (py_exn + row list) \<times> world" where
  "process_files env [] rows w = (Inr rows, w)"
| "process_files env (f # files) rows w =
     (if \<not> is_docx (fst f) then process_files env files rows w
      else (case infer_row env f of
              (Inl e, sent) \<Rightarrow> (Inl e, log_requests sent w)
            | (Inr r, sent) \<Rightarrow>
                (case to_excel env (rows @ [r]) (log_requests sent w) of
                   (Inl e, w') \<Rightarrow> (Inl e, w')
                 | (Inr u, w') \<Rightarrow> process_files env files (rows @ [r]) w')))"

text \<open>\<^verbatim>\<open>main_process\<close> (lines 135-178); \<open>entries\<close> is the content of the input folder.\<close>

definition main_process :: "env \<Rightarrow> node list \<Rightarrow> world \<Rightarrow> (py_exn + unit) \<times> world" where
  "main_process env entries w =
     (let docx_files = filter is_docx (listdir entries)
      in if docx_files = [] then to_excel env [blank_row] w
         else (case process_files env (os_walk entries) [] w of
                 (Inl e, w') \<Rightarrow> (Inl e, w')
               | (Inr rows, w') \<Rightarrow>
                   if rows = [] then to_excel env [] w' else (Inr (), w')))"

text \<open>The body of the \<^verbatim>\<open>try\<close> of the main block (lines 183-189).\<close>

definition main_try :: "env \<Rightarrow> node list \<Rightarrow> world \<Rightarrow> (py_exn + unit) \<times> world" where
  "main_try env entries w =
     (case (if results_file w = None then to_excel env [] w else (Inr (), w)) of
        (Inl e, w') \<Rightarrow> (Inl e, w')
      | (Inr u, w') \<Rightarrow> main_process env entries w')"

text \<open>The main block (lines 181-199): the \<^verbatim>\<open>try\<close> and its handler for \<^verbatim>\<open>Exception\<close>.\<close>

definition script_main :: "env \<Rightarrow> node list \<Rightarrow> world \<Rightarrow> (py_exn + unit) \<times> world" where
  "script_main env entries w =
     (case main_try env entries w of
        (Inl e, w') \<Rightarrow> to_excel env [blank_row] w'
      | (Inr u, w') \<Rightarrow> (Inr (), w'))"

section \<open>The reconciler\<close>

text \<open>
  \<^verbatim>\<open>os.path.splitext\<close> on the paths of the script, which are Windows paths: the separators
  are the backslash and the slash. \<open>rfind\<close> is \<^verbatim>\<open>str.rfind\<close>, \<open>-1\<close> when the character is
  absent. The loop over the leading dots of the name returns at the first character
  that is not a dot.
\<close>

definition rfind :: "char \<Rightarrow> string \<Rightarrow> int" where
  "rfind c s =
     (if c \<in> set s then int (length s) - 1 - int (length (takeWhile (\<lambda>x. x \<noteq> c) (rev s)))
      else - 1)"

definition splitext :: "string \<Rightarrow> string \<times> string" where
  "splitext p =
     (let sepIndex = max (rfind (CHR 0x5C) p) (rfind (CHR ''/'') p);
          dotIndex = rfind (CHR ''.'') p
      in if dotIndex > sepIndex \<and>
            list_ex (\<lambda>c. c \<noteq> CHR ''.'')
              (take (nat (dotIndex - (sepIndex + 1))) (drop (nat (sepIndex + 1)) p))
         then (take (nat dotIndex) p, drop (nat dotIndex) p)
         else (p, []))"

record comparison =
  Missing_Files :: "string list"
  Extra_Files :: "string list"
  Unprocessed :: "string list"

text \<open>
  The body of scripts.py (lines 17-44). \<open>names\<close> is \<^verbatim>\<open>os.listdir(input_folder)\<close>,
  \<open>processed_files\<close> the first column of the results file as strings. The result holds
  the two sheets of the workbook and the names of the files copied to the folder
  \<^verbatim>\<open>Unprocessed\<close>, in the order of the copies.
\<close>

definition reconcile :: "string list \<Rightarrow> string list \<Rightarrow> comparison" where
  "reconcile names processed_files =
     (let input_files = filter (\<lambda>f. endswith f ''.docx'') names;
          input_files_no_ext = map (\<lambda>f. fst (splitext f)) input_files;
          processed_files_no_ext = map (\<lambda>f. fst (splitext f)) processed_files;
          missing_in_results =
            sorted_list_of_set (set input_files_no_ext - set processed_files_no_ext);
          extra_in_results =
            sorted_list_of_set (set processed_files_no_ext - set input_files_no_ext)
      in \<lparr>Missing_Files = missing_in_results,
          Extra_Files = extra_in_results,
          Unprocessed = filter (\<lambda>file. fst (splitext file) \<in> set missing_in_results) input_files\<rparr>)"

section \<open>Sample collaborators\<close>

text \<open>A model whose every call raises, and the five keys of the expected reply.\<close>

definition failing_model :: "py_exn \<Rightarrow> string \<Rightarrow> py_exn + string" where
  "failing_model e doc_text = Inl e"

definition metadata_keys :: "string list" where
  "metadata_keys = [''state'', ''location'', ''department'', ''audit_conducted_year'', ''financial_year'']"

text \<open>
  A world in which every write succeeds, one in which the \<open>k\<close>-th write of the results
  file raises, one in which every write from the \<open>k\<close>-th on raises, the state before the
  first run, and a small input folder with a model that always gives the same reply.
\<close>

definition sample_env :: "string \<Rightarrow> env" where
  "sample_env reply = \<lparr>llm = fixed_reply reply, write_fault = (\<lambda>n. None)\<rparr>"

definition fault_at :: "nat \<Rightarrow> string \<Rightarrow> env" where
  "fault_at k reply =
     \<lparr>llm = fixed_reply reply,
      write_fault = (\<lambda>n. if n = k then Some (OtherException ''PermissionError'') else None)\<rparr>"

definition fault_from :: "nat \<Rightarrow> string \<Rightarrow> env" where
  "fault_from k reply =
     \<lparr>llm = fixed_reply reply,
      write_fault = (\<lambda>n. if k \<le> n then Some (OtherException ''PermissionError'') else None)\<rparr>"

definition fresh_world :: world where
  "fresh_world =
     \<lparr>results_file = None, persisted = [], writes = 0, requests = [], events = []\<rparr>"

definition sample_tree :: "node list" where
  "sample_tree =
     [FileN ''a.docx'' (Inr [''Audit'']),
      FileN ''notes.txt'' (Inr [''x'']),
      DirN ''2023'' [FileN ''B.DOCX'' (Inr [''Scope''])]]"

definition sample_reply :: string where
  "sample_reply = ''{\"state\": \"Goa\"}''"

definition sample_row :: "string \<Rightarrow> row" where
  "sample_row fname =
     \<lparr>Filename = fname, State = ''Goa'', Location = ''Unknown'',
      Department = ''Unknown Department'', Audit_Conducted_Year = ''Unknown'',
      Financial_Year = ''Unknown''\<rparr>"

section \<open>The order of requests and writes\<close>

text \<open>
  The log that a loop over the documents \<open>fs\<close> leaves when it starts with the table
  \<open>rows\<close> and adds the rows \<open>new\<close>: for each document in turn, the requests of its
  inference, then the write of the table grown by its row. \<open>interrupted env docs n\<close> is
  what a run that fails while it processes document number \<open>n\<close> has logged for it: the
  requests of its inference and no write.
\<close>

fun interleaved ::
  "env \<Rightarrow> (string \<times> document) list \<Rightarrow> row list \<Rightarrow> row list \<Rightarrow> event list" where
  "interleaved env (f # fs) rows (r # new) =
     map Request (snd (infer_row env f)) @ [Write (rows @ [r])] @
     interleaved env fs (rows @ [r]) new"
| "interleaved env fs rows new = []"

definition interrupted :: "env \<Rightarrow> (string \<times> document) list \<Rightarrow> nat \<Rightarrow> event list" where
  "interrupted env docs n =
     concat (map (\<lambda>f. map Request (snd (infer_row env f))) (take 1 (drop n docs)))"

section \<open>Reading the reply, in the words of the specification\<close>

text \<open>
  The trimmed text of a key of the reply, the default when the key is absent; the five
  fields read this way, the location cleaned.
\<close>

definition field_text :: "(string \<times> json) list \<Rightarrow> string \<Rightarrow> string \<Rightarrow> string" where
  "field_text members key dflt =
     (case dict_lookup members key of Some (JString s) \<Rightarrow> strip s | _ \<Rightarrow> dflt)"

definition metadata_of :: "(string \<times> json) list \<Rightarrow> metadata" where
  "metadata_of members =
     (field_text members ''state'' ''Unknown'',
      (case dict_lookup members ''location'' of
         Some (JString s) \<Rightarrow> clean_location (strip s) | _ \<Rightarrow> ''Unknown''),
      field_text members ''department'' ''Unknown Department'',
      field_text members ''audit_conducted_year'' ''Unknown'',
      field_text members ''financial_year'' ''Unknown'')"

text \<open>Each of the five keys is absent or has a string for its value.\<close>

definition string_fields :: "(string \<times> json) list \<Rightarrow> bool" where
  "string_fields members =
     list_all (\<lambda>key. case dict_lookup members key of
                        None \<Rightarrow> True | Some (JString s) \<Rightarrow> True | Some _ \<Rightarrow> False)
       metadata_keys"

text \<open>
  Follows the words of the specification, "the first brace-delimited substring": from
  the first opening brace to the first closing brace after it.
\<close>

definition spec_first_brace_delimited :: "string \<Rightarrow> string option" where
  "spec_first_brace_delimited content =
     (let t = dropWhile (\<lambda>c. c \<noteq> CHR ''{'') content
      in if CHR ''}'' \<in> set t then Some (takeWhile (\<lambda>c. c \<noteq> CHR ''}'') t @ ''}'') else None)"

section \<open>Location cleanup, in the words of the specification\<close>

text \<open>
  The character before position \<open>i\<close> of a string, \<open>None\<close> at its start.
\<close>

definition prev_char :: "string \<Rightarrow> nat \<Rightarrow> char option" where
  "prev_char l i = (if i = 0 then None else char_at l (i - 1))"

text \<open>
  A roadway token "matched as a whole word case-insensitively" at position \<open>i\<close>: one of
  the five keywords, in any mix of cases, with no word character before it and none
  after it.
\<close>

definition roadway_token_at :: "string \<Rightarrow> nat \<Rightarrow> bool" where
  "roadway_token_at l i =
     (\<not> is_word_opt (prev_char l i) \<and>
      list_ex (\<lambda>k. i + length k \<le> length l \<and> lower (take (length k) (drop i l)) = k \<and>
                   \<not> is_word_opt (char_at l (i + length k))) roadway_keywords)"

text \<open>
  The token and "everything after it" removed: the text before the first position that
  holds a roadway token, and the whole text when there is none.
\<close>

definition cut_line :: "string \<Rightarrow> string" where
  "cut_line l =
     (case find (roadway_token_at l) [0..<length l] of None \<Rightarrow> l | Some i \<Rightarrow> take i l)"

text \<open>
  Follows the words of the specification: with a comma, the text after the last comma,
  trimmed; otherwise the text before the first roadway token, trimmed.
\<close>

definition spec_clean_location :: "string \<Rightarrow> string" where
  "spec_clean_location s =
     (if CHR '','' \<in> set s then strip (rev (takeWhile (\<lambda>c. c \<noteq> CHR '','') (rev s)))
      else strip (cut_line s))"

text \<open>
  Two notions used to relate the substitution of the program to \<open>cut_line\<close>: what the
  substitution leaves of one line, scanning from the left with the previous character at
  hand, and a roadway token at the head of a text.
\<close>

fun cut_from :: "char option \<Rightarrow> string \<Rightarrow> string" where
  "cut_from prev [] = []"
| "cut_from prev (c # cs) =
     (if roadway_match prev (c # cs) \<noteq> None then [] else c # cut_from (Some c) cs)"

definition token_here :: "char option \<Rightarrow> string \<Rightarrow> bool" where
  "token_here prev s =
     (\<not> is_word_opt prev \<and>
      (\<exists>k\<in>set roadway_keywords. length k \<le> length s \<and> lower (take (length k) s) = k \<and>
          \<not> is_word_opt (char_at s (length k))))"

section \<open>Properties of metadata inference\<close>

lemma try_except_Exception_Inr:
  "try_except_Exception body (\<lambda>e. Inr d) = Inr (case body of Inl e \<Rightarrow> d | Inr v \<Rightarrow> v)"
  by (simp add: try_except_Exception_def split: sum.splits)

text \<open>
  Claim C4. When the extracted text of a document is empty, \<open>analyze_ir_content\<close> returns
  the five default sentinels and sends no request to the model; so the row of such a
  document holds the sentinels and its inference leaves the model untouched.
\<close>

theorem empty_text_gives_defaults:
  "analyze_ir_content model [] =
     (Inr (''Unknown'', ''Unknown'', ''Unknown Department'', ''Unknown'', ''Unknown''), []) \<and>
   (extract_text_from_docx doc = Inr [] \<longrightarrow>
      infer_row env (fname, doc) =
        (Inr \<lparr>Filename = fname, State = ''Unknown'', Location = ''Unknown'',
              Department = ''Unknown Department'', Audit_Conducted_Year = ''Unknown'',
              Financial_Year = ''Unknown''\<rparr>, []))"
  by (simp add: analyze_ir_content_def default_metadata_def infer_row_def)

theorem empty_text_gives_defaults_witness:
  "extract_text_from_docx (Inr ['' '', '''']) = Inr [] \<and>
   analyze_ir_content (fixed_reply ''{}'') [] =
     (Inr (''Unknown'', ''Unknown'', ''Unknown Department'', ''Unknown'', ''Unknown''), []) \<and>
   infer_row \<lparr>llm = fixed_reply ''{}'', write_fault = (\<lambda>n. None)\<rparr> (''a.docx'', Inr ['' '', '''']) =
        (Inr \<lparr>Filename = ''a.docx'', State = ''Unknown'', Location = ''Unknown'',
              Department = ''Unknown Department'', Audit_Conducted_Year = ''Unknown'',
              Financial_Year = ''Unknown''\<rparr>, [])"
proof -
  have h: "extract_text_from_docx (Inr ['' '', '''']) = Inr []"
    by code_simp
  show ?thesis
    using h empty_text_gives_defaults
      [of "fixed_reply ''{}''" "Inr ['' '', '''']" "\<lparr>llm = fixed_reply ''{}'', write_fault = (\<lambda>n. None)\<rparr>" "''a.docx''"]
    by simp
qed

text \<open>
  Claim C5. \<open>analyze_ir_content\<close> always returns a five-tuple and never an exception, and it
  calls the model at most once. When the call raises, and when the reply fails the strict
  parse and the fallback finds nothing that parses (or the handler raises anything at
  all), the result is the tuple of the five defaults, after that single call.
\<close>

theorem analyze_never_raises:
  "(\<exists>m. fst (analyze_ir_content model text) = Inr m) \<and>
   length (snd (analyze_ir_content model text)) \<le> 1 \<and>
   (text \<noteq> [] \<longrightarrow> model text = Inl e \<longrightarrow>
      analyze_ir_content model text = (Inr default_metadata, [text])) \<and>
   (text \<noteq> [] \<longrightarrow> model text = Inr reply \<longrightarrow> parse_reply (strip reply) = Inl e \<longrightarrow>
      analyze_ir_content model text = (Inr default_metadata, [text])) \<and>
   (text \<noteq> [] \<longrightarrow> model text = Inr reply \<longrightarrow>
      json_loads (strip reply) = Inl JSONDecodeError \<longrightarrow>
      (\<forall>m. re_search_braces (strip reply) = Some m \<longrightarrow> (\<exists>x. json_loads m = Inl x)) \<longrightarrow>
      analyze_ir_content model text = (Inr default_metadata, [text]))"
proof (intro conjI impI)
  show "\<exists>m. fst (analyze_ir_content model text) = Inr m"
    by (simp add: analyze_ir_content_def try_except_Exception_Inr del: split_paired_Ex)
  show "length (snd (analyze_ir_content model text)) \<le> 1"
    by (simp add: analyze_ir_content_def)
next
  assume "text \<noteq> []" "model text = Inl e"
  then show "analyze_ir_content model text = (Inr default_metadata, [text])"
    by (simp add: analyze_ir_content_def try_except_Exception_def bind_exn_def)
next
  assume "text \<noteq> []" "model text = Inr reply" "parse_reply (strip reply) = Inl e"
  then show "analyze_ir_content model text = (Inr default_metadata, [text])"
    by (simp add: analyze_ir_content_def try_except_Exception_def bind_exn_def)
next
  assume a: "text \<noteq> []" "model text = Inr reply"
    "json_loads (strip reply) = Inl JSONDecodeError"
    "\<forall>m. re_search_braces (strip reply) = Some m \<longrightarrow> (\<exists>x. json_loads m = Inl x)"
  have "parse_reply (strip reply) = Inr default_metadata \<or> (\<exists>x. parse_reply (strip reply) = Inl x)"
    using a(3,4)
    by (auto simp: parse_reply_def try_except_JSONDecodeError_def bind_exn_def
             split: option.splits)
  then show "analyze_ir_content model text = (Inr default_metadata, [text])"
    using a(1,2)
    by (auto simp: analyze_ir_content_def try_except_Exception_def bind_exn_def)
qed

theorem analyze_never_raises_witness:
  "failing_model (OtherException ''timeout'') ''report'' = Inl (OtherException ''timeout'') \<and>
   analyze_ir_content (failing_model (OtherException ''timeout'')) ''report'' =
     (Inr default_metadata, [''report'']) \<and>
   json_loads (strip ''{\"state\": \"Goa\" '') = Inl JSONDecodeError \<and>
   re_search_braces (strip ''{\"state\": \"Goa\" '') = None \<and>
   analyze_ir_content (fixed_reply ''{\"state\": \"Goa\" '') ''report'' =
     (Inr default_metadata, [''report''])"
proof -
  have h1: "failing_model (OtherException ''timeout'') ''report'' = Inl (OtherException ''timeout'')"
    by (simp add: failing_model_def)
  have h2: "fixed_reply ''{\"state\": \"Goa\" '' ''report'' = Inr ''{\"state\": \"Goa\" ''"
    by (simp add: fixed_reply_def)
  have h3: "json_loads (strip ''{\"state\": \"Goa\" '') = Inl JSONDecodeError"
    by code_simp
  have h4: "re_search_braces (strip ''{\"state\": \"Goa\" '') = None"
    by code_simp
  have n: "''report'' \<noteq> []" by simp
  from analyze_never_raises
         [of "failing_model (OtherException ''timeout'')" "''report''" "OtherException ''timeout''"]
       h1 n
  have r1: "analyze_ir_content (failing_model (OtherException ''timeout'')) ''report'' =
     (Inr default_metadata, [''report''])" by blast
  from analyze_never_raises
         [of "fixed_reply ''{\"state\": \"Goa\" ''" "''report''" _ "''{\"state\": \"Goa\" ''"]
       h2 h3 h4 n
  have r2: "analyze_ir_content (fixed_reply ''{\"state\": \"Goa\" '') ''report'' =
     (Inr default_metadata, [''report''])" by simp
  show ?thesis using h1 h3 h4 r1 r2 by simp
qed

section \<open>Properties of text extraction\<close>

text \<open>
  Claim C6. Text extraction always returns a string, never an exception: the empty string
  when the document cannot be read, and otherwise the newline-join of the trimmed texts of
  the paragraphs that are not blank, cut to its first 5000 characters. The result is never
  longer than 5000 characters, and it differs from the joined text exactly when the
  joined text is longer than that.
\<close>

theorem extract_text_bounded:
  "\<exists>t. extract_text_from_docx doc = Inr t \<and> length t \<le> 5000 \<and>
       (\<forall>e. doc = Inl e \<longrightarrow> t = []) \<and>
       (\<forall>paragraphs. doc = Inr paragraphs \<longrightarrow>
          t = take 5000 (join [newline] (map strip (filter (\<lambda>p. strip p \<noteq> []) paragraphs))) \<and>
          (t \<noteq> join [newline] (map strip (filter (\<lambda>p. strip p \<noteq> []) paragraphs)) \<longleftrightarrow>
           5000 < length (join [newline] (map strip (filter (\<lambda>p. strip p \<noteq> []) paragraphs)))))"
proof (cases doc)
  case (Inl e)
  then show ?thesis
    by (simp add: extract_text_from_docx_def try_except_Exception_def bind_exn_def)
next
  case (Inr paragraphs)
  define joined where "joined = join [newline] (map strip (filter (\<lambda>p. strip p \<noteq> []) paragraphs))"
  have r: "extract_text_from_docx doc = Inr (if 5000 < length joined then take 5000 joined else joined)"
    using Inr
    by (simp add: extract_text_from_docx_def try_except_Exception_def bind_exn_def
                  MAX_TEXT_LENGTH_def joined_def Let_def)
  have neq: "5000 < length joined \<Longrightarrow> take 5000 joined \<noteq> joined"
  proof
    assume a: "5000 < length joined" "take 5000 joined = joined"
    then have "length (take 5000 joined) = length joined" by simp
    with a(1) show False by simp
  qed
  show ?thesis
    using Inr r neq by (auto simp: joined_def [symmetric])
qed

theorem extract_text_bounded_witness:
  "extract_text_from_docx (Inl (OtherException ''PackageNotFoundError'')) = Inr [] \<and>
   extract_text_from_docx (Inr ['' Audit report '', ''   '', ''Scope'']) =
     Inr (''Audit report'' @ [newline] @ ''Scope'') \<and>
   length (''Audit report'' @ [newline] @ ''Scope'') \<le> 5000"
proof -
  have a: "extract_text_from_docx (Inr ['' Audit report '', ''   '', ''Scope'']) =
     Inr (''Audit report'' @ [newline] @ ''Scope'')"
    by code_simp
  from extract_text_bounded [of "Inl (OtherException ''PackageNotFoundError'')"]
  have b: "extract_text_from_docx (Inl (OtherException ''PackageNotFoundError'')) = Inr []"
    by auto
  from extract_text_bounded [of "Inr ['' Audit report '', ''   '', ''Scope'']"] a
  have c: "length (''Audit report'' @ [newline] @ ''Scope'') \<le> 5000"
    by auto
  show ?thesis using a b c by blast
qed

section \<open>Fields that are not strings\<close>

lemma get_stripped_cases:
  "get_stripped (JObject members) key dflt = Inl AttributeError \<or>
   (\<exists>s. get_stripped (JObject members) key dflt = Inr s)"
  by (auto simp: get_stripped_def dict_get_def str_strip_def bind_exn_def
           split: option.splits json.splits)

lemma get_stripped_non_string:
  "dict_lookup members key = Some v \<Longrightarrow> \<forall>s. v \<noteq> JString s \<Longrightarrow>
   get_stripped (JObject members) key dflt = Inl AttributeError"
  by (auto simp: get_stripped_def dict_get_def str_strip_def bind_exn_def split: json.splits)

lemma read_fields_non_string:
  assumes "key \<in> set metadata_keys" "dict_lookup members key = Some v" "\<forall>s. v \<noteq> JString s"
  shows "read_fields (JObject members) = Inl AttributeError"
proof -
  have k: "key = ''state'' \<or> key = ''location'' \<or> key = ''department'' \<or>
           key = ''audit_conducted_year'' \<or> key = ''financial_year''"
    using assms(1) by (auto simp: metadata_keys_def)
  have bad: "\<And>d. get_stripped (JObject members) key d = Inl AttributeError"
    using assms(2,3) by (rule get_stripped_non_string)
  note c = get_stripped_cases [of members]
  from k show ?thesis
  proof (elim disjE)
    assume "key = ''state''"
    with bad [of "''Unknown''"] show ?thesis
      by (simp add: read_fields_def bind_exn_def)
  next
    assume "key = ''location''"
    with bad [of "''Unknown''"] c [of "''state''" "''Unknown''"] show ?thesis
      by (auto simp: read_fields_def bind_exn_def)
  next
    assume "key = ''department''"
    with bad [of "''Unknown Department''"] c [of "''state''" "''Unknown''"]
      c [of "''location''" "''Unknown''"] show ?thesis
      by (auto simp: read_fields_def bind_exn_def Let_def)
  next
    assume "key = ''audit_conducted_year''"
    with bad [of "''Unknown''"] c [of "''state''" "''Unknown''"]
      c [of "''location''" "''Unknown''"] c [of "''department''" "''Unknown Department''"]
    show ?thesis
      by (auto simp: read_fields_def bind_exn_def Let_def)
  next
    assume "key = ''financial_year''"
    with bad [of "''Unknown''"] c [of "''state''" "''Unknown''"]
      c [of "''location''" "''Unknown''"] c [of "''department''" "''Unknown Department''"]
      c [of "''audit_conducted_year''" "''Unknown''"]
    show ?thesis
      by (auto simp: read_fields_def bind_exn_def Let_def)
  qed
qed

text \<open>
  Claim C10. When the reply parses, on the strict path or on the fallback path, to an object
  in which one of the five expected keys is present with a value that is not a string,
  \<open>analyze_ir_content\<close> returns the five defaults: the trim of that value raises, the outer
  handler replaces the whole tuple, and the string values of the other keys are lost.
\<close>

theorem non_string_field_discards_all:
  assumes "doc_text \<noteq> []" and "model doc_text = Inr reply"
    and "key \<in> set metadata_keys" and "dict_lookup members key = Some v"
    and "\<forall>s. v \<noteq> JString s"
    and "json_loads (strip reply) = Inr (JObject members) \<or>
         (json_loads (strip reply) = Inl JSONDecodeError \<and>
          re_search_braces (strip reply) = Some json_match \<and>
          json_loads json_match = Inr (JObject members))"
  shows "analyze_ir_content model doc_text = (Inr default_metadata, [doc_text])"
proof -
  have "read_fields (JObject members) = Inl AttributeError"
    using assms(3,4,5) by (rule read_fields_non_string)
  then have "parse_reply (strip reply) = Inl AttributeError"
    using assms(6)
    by (auto simp: parse_reply_def try_except_JSONDecodeError_def bind_exn_def)
  then show ?thesis
    using assms(1,2)
    by (simp add: analyze_ir_content_def try_except_Exception_def bind_exn_def)
qed

theorem non_string_field_discards_all_witness:
  "json_loads (strip ''{\"state\": 5, \"location\": \"Pune\"}'') =
     Inr (JObject [(''state'', JNumber ''5''), (''location'', JString ''Pune'')]) \<and>
   dict_lookup [(''state'', JNumber ''5''), (''location'', JString ''Pune'')] ''state'' =
     Some (JNumber ''5'') \<and>
   analyze_ir_content (fixed_reply ''{\"state\": 5, \"location\": \"Pune\"}'') ''report'' =
     (Inr default_metadata, [''report''])"
proof -
  have a: "json_loads (strip ''{\"state\": 5, \"location\": \"Pune\"}'') =
     Inr (JObject [(''state'', JNumber ''5''), (''location'', JString ''Pune'')])"
    by code_simp
  have b: "dict_lookup [(''state'', JNumber ''5''), (''location'', JString ''Pune'')] ''state'' =
     Some (JNumber ''5'')"
    by code_simp
  have c: "fixed_reply ''{\"state\": 5, \"location\": \"Pune\"}'' ''report'' =
     Inr ''{\"state\": 5, \"location\": \"Pune\"}''"
    by (simp add: fixed_reply_def)
  have d: "''state'' \<in> set metadata_keys" by (simp add: metadata_keys_def)
  have e: "\<forall>s. JNumber ''5'' \<noteq> JString s" by simp
  have n: "''report'' \<noteq> []" by simp
  have "analyze_ir_content (fixed_reply ''{\"state\": 5, \"location\": \"Pune\"}'') ''report'' =
     (Inr default_metadata, [''report''])"
    using non_string_field_discards_all
      [where model = "fixed_reply ''{\"state\": 5, \"location\": \"Pune\"}''"
         and doc_text = "''report''" and reply = "''{\"state\": 5, \"location\": \"Pune\"}''"
         and key = "''state''" and v = "JNumber ''5''"
         and members = "[(''state'', JNumber ''5''), (''location'', JString ''Pune'')]",
       OF n c d b e]
      a
    by simp
  with a b show ?thesis by blast
qed

section \<open>Properties of the reconciler\<close>

text \<open>
  Claim C9. The reconciler takes the stems of the \<^verbatim>\<open>.docx\<close> names of the input folder and
  of the first column of the results file. The sheet of missing files is the sorted list,
  without repetition, of the input stems that are not results stems; the sheet of extra
  files is the same for the results stems that are not input stems; and the files copied
  to the quarantine folder are exactly the input files whose stem is missing. For input
  stems A, B, C and results stems B, C, D the sheets are A and D, and only A is copied.
\<close>

theorem reconcile_differences:
  "set (Missing_Files (reconcile names processed)) =
     (\<lambda>f. fst (splitext f)) ` {f \<in> set names. endswith f ''.docx''} -
     (\<lambda>f. fst (splitext f)) ` set processed \<and>
   set (Extra_Files (reconcile names processed)) =
     (\<lambda>f. fst (splitext f)) ` set processed -
     (\<lambda>f. fst (splitext f)) ` {f \<in> set names. endswith f ''.docx''} \<and>
   sorted (Missing_Files (reconcile names processed)) \<and>
   distinct (Missing_Files (reconcile names processed)) \<and>
   sorted (Extra_Files (reconcile names processed)) \<and>
   distinct (Extra_Files (reconcile names processed)) \<and>
   Unprocessed (reconcile names processed) =
     filter (\<lambda>f. endswith f ''.docx'' \<and>
                 fst (splitext f) \<in> set (Missing_Files (reconcile names processed))) names \<and>
   reconcile [''A.docx'', ''B.docx'', ''C.docx''] [''B.docx'', ''C.docx'', ''D.docx''] =
     \<lparr>Missing_Files = [''A''], Extra_Files = [''D''], Unprocessed = [''A.docx'']\<rparr>"
proof -
  have ex: "reconcile [''A.docx'', ''B.docx'', ''C.docx''] [''B.docx'', ''C.docx'', ''D.docx''] =
     \<lparr>Missing_Files = [''A''], Extra_Files = [''D''], Unprocessed = [''A.docx'']\<rparr>"
    by code_simp
  have img: "set (map (\<lambda>f. fst (splitext f)) (filter (\<lambda>f. endswith f ''.docx'') names)) =
     (\<lambda>f. fst (splitext f)) ` {f \<in> set names. endswith f ''.docx''}"
    by auto
  have gen: "set (Missing_Files (reconcile names processed)) =
     (\<lambda>f. fst (splitext f)) ` {f \<in> set names. endswith f ''.docx''} -
     (\<lambda>f. fst (splitext f)) ` set processed \<and>
   set (Extra_Files (reconcile names processed)) =
     (\<lambda>f. fst (splitext f)) ` set processed -
     (\<lambda>f. fst (splitext f)) ` {f \<in> set names. endswith f ''.docx''} \<and>
   sorted (Missing_Files (reconcile names processed)) \<and>
   distinct (Missing_Files (reconcile names processed)) \<and>
   sorted (Extra_Files (reconcile names processed)) \<and>
   distinct (Extra_Files (reconcile names processed)) \<and>
   Unprocessed (reconcile names processed) =
     filter (\<lambda>f. endswith f ''.docx'' \<and>
                 fst (splitext f) \<in> set (Missing_Files (reconcile names processed))) names"
    unfolding reconcile_def Let_def
    by (simp add: img del: set_map set_filter) (simp add: conj_commute)
  from gen ex show ?thesis by blast
qed

theorem reconcile_differences_witness:
  "Missing_Files (reconcile [''A.docx'', ''notes.txt'', ''B.docx''] [''B.docx'', ''D.docx'']) = [''A''] \<and>
   Extra_Files (reconcile [''A.docx'', ''notes.txt'', ''B.docx''] [''B.docx'', ''D.docx'']) = [''D''] \<and>
   Unprocessed (reconcile [''A.docx'', ''notes.txt'', ''B.docx''] [''B.docx'', ''D.docx'']) = [''A.docx''] \<and>
   reconcile [''A.docx'', ''B.docx'', ''C.docx''] [''B.docx'', ''C.docx'', ''D.docx''] =
     \<lparr>Missing_Files = [''A''], Extra_Files = [''D''], Unprocessed = [''A.docx'']\<rparr>"
proof -
  have a: "reconcile [''A.docx'', ''notes.txt'', ''B.docx''] [''B.docx'', ''D.docx''] =
     \<lparr>Missing_Files = [''A''], Extra_Files = [''D''], Unprocessed = [''A.docx'']\<rparr>"
    by code_simp
  from reconcile_differences [of "[''A.docx'', ''notes.txt'', ''B.docx'']" "[''B.docx'', ''D.docx'']"]
  have b: "reconcile [''A.docx'', ''B.docx'', ''C.docx''] [''B.docx'', ''C.docx'', ''D.docx''] =
     \<lparr>Missing_Files = [''A''], Extra_Files = [''D''], Unprocessed = [''A.docx'']\<rparr>"
    by blast
  show ?thesis using a b by simp
qed

section \<open>Properties of the batch driver\<close>

lemma upt_growing:
  "map f [Suc 0..<Suc (Suc n)] = f (Suc 0) # map (\<lambda>k. f (Suc k)) [Suc 0..<Suc n]"
proof -
  have "[Suc 0..<Suc (Suc n)] = Suc 0 # [Suc (Suc 0)..<Suc (Suc n)]"
    by (rule upt_conv_Cons) simp
  moreover have "[Suc (Suc 0)..<Suc (Suc n)] = map Suc [Suc 0..<Suc n]"
    by (simp only: map_Suc_upt)
  ultimately show ?thesis by (simp add: comp_def del: upt_Suc)
qed

lemma process_files_skip:
  "\<not> is_docx (fst f) \<Longrightarrow> process_files env (f # files) rows w = process_files env files rows w"
  by simp

lemma process_files_infer_fails:
  "is_docx (fst f) \<Longrightarrow> infer_row env f = (Inl e, sent) \<Longrightarrow>
   process_files env (f # files) rows w =
     (Inl e, w\<lparr>requests := requests w @ sent, events := events w @ map Request sent\<rparr>)"
  by (simp add: log_requests_def)

lemma process_files_write_fails:
  "is_docx (fst f) \<Longrightarrow> infer_row env f = (Inr r, sent) \<Longrightarrow>
   write_fault env (writes w) = Some e \<Longrightarrow>
   process_files env (f # files) rows w =
     (Inl e, w\<lparr>requests := requests w @ sent, events := events w @ map Request sent,
               writes := Suc (writes w)\<rparr>)"
  by (simp add: to_excel_def log_requests_def)

lemma process_files_write_ok:
  "is_docx (fst f) \<Longrightarrow> infer_row env f = (Inr r, sent) \<Longrightarrow>
   write_fault env (writes w) = None \<Longrightarrow>
   process_files env (f # files) rows w =
     process_files env files (rows @ [r])
       (w\<lparr>requests := requests w @ sent, results_file := Some (rows @ [r]),
          persisted := persisted w @ [rows @ [r]],
          events := events w @ map Request sent @ [Write (rows @ [r])],
          writes := Suc (writes w)\<rparr>)"
  by (simp add: to_excel_def log_requests_def)

lemma process_files_trace:
  "\<exists>new. list_all2 (\<lambda>f r. fst (infer_row env f) = Inr r)
            (take (length new) (filter (\<lambda>f. is_docx (fst f)) files)) new \<and>
         persisted (snd (process_files env files rows w)) =
           persisted w @ map (\<lambda>k. rows @ take k new) [1..<Suc (length new)] \<and>
         results_file (snd (process_files env files rows w)) =
           (if new = [] then results_file w else Some (rows @ new)) \<and>
         (\<forall>rs. fst (process_files env files rows w) = Inr rs \<longrightarrow>
            rs = rows @ new \<and> length new = length (filter (\<lambda>f. is_docx (fst f)) files)) \<and>
         events (snd (process_files env files rows w)) =
           events w @ interleaved env (filter (\<lambda>f. is_docx (fst f)) files) rows new @
           (if (\<exists>rs. fst (process_files env files rows w) = Inr rs) then []
            else interrupted env (filter (\<lambda>f. is_docx (fst f)) files) (length new))"
proof (induction files arbitrary: rows w)
  case Nil
  show ?case by (rule exI [of _ "[]"]) simp
next
  case (Cons f files)
  show ?case
  proof (cases "is_docx (fst f)")
    case False
    have flt: "filter (\<lambda>f. is_docx (fst f)) (f # files) = filter (\<lambda>f. is_docx (fst f)) files"
      using False by simp
    show ?thesis
      unfolding process_files_skip [OF False] flt by (rule Cons.IH)
  next
    case True
    obtain res sent where ir: "infer_row env f = (res, sent)" by (cases "infer_row env f")
    show ?thesis
    proof (cases res)
      case (Inl e)
      show ?thesis
        unfolding process_files_infer_fails [OF True ir [unfolded Inl]]
        using True ir by (intro exI [of _ "[]"]) (simp add: interrupted_def)
    next
      case (Inr r)
      note ir' = ir [unfolded Inr]
      show ?thesis
      proof (cases "write_fault env (writes w)")
        case (Some e)
        show ?thesis
          unfolding process_files_write_fails [OF True ir' Some]
          using True ir by (intro exI [of _ "[]"]) (simp add: interrupted_def)
      next
        case None
        define w2 where "w2 = w\<lparr>requests := requests w @ sent, results_file := Some (rows @ [r]),
          persisted := persisted w @ [rows @ [r]],
          events := events w @ map Request sent @ [Write (rows @ [r])],
          writes := Suc (writes w)\<rparr>"
        have step: "process_files env (f # files) rows w = process_files env files (rows @ [r]) w2"
          unfolding w2_def by (rule process_files_write_ok [OF True ir' None])
        have pw2: "persisted w2 = persisted w @ [rows @ [r]]" by (simp add: w2_def)
        have ew2: "events w2 = events w @ map Request sent @ [Write (rows @ [r])]"
          by (simp add: w2_def)
        from Cons.IH [of "rows @ [r]" w2] obtain new where
          n1: "list_all2 (\<lambda>f r. fst (infer_row env f) = Inr r)
                 (take (length new) (filter (\<lambda>f. is_docx (fst f)) files)) new"
          and n2: "persisted (snd (process_files env files (rows @ [r]) w2)) =
                 persisted w2 @ map (\<lambda>k. (rows @ [r]) @ take k new) [1..<Suc (length new)]"
          and n3: "results_file (snd (process_files env files (rows @ [r]) w2)) =
                 (if new = [] then results_file w2 else Some ((rows @ [r]) @ new))"
          and n4: "\<forall>rs. fst (process_files env files (rows @ [r]) w2) = Inr rs \<longrightarrow>
                 rs = (rows @ [r]) @ new \<and> length new = length (filter (\<lambda>f. is_docx (fst f)) files)"
          and n5: "events (snd (process_files env files (rows @ [r]) w2)) =
                 events w2 @ interleaved env (filter (\<lambda>f. is_docx (fst f)) files) (rows @ [r]) new @
                 (if (\<exists>rs. fst (process_files env files (rows @ [r]) w2) = Inr rs) then []
                  else interrupted env (filter (\<lambda>f. is_docx (fst f)) files) (length new))"
          by blast
        have a: "list_all2 (\<lambda>f r. fst (infer_row env f) = Inr r)
                  (take (length (r # new)) (filter (\<lambda>f. is_docx (fst f)) (f # files))) (r # new)"
          using True ir' n1 by simp
        have b: "persisted (snd (process_files env (f # files) rows w)) =
                  persisted w @ map (\<lambda>k. rows @ take k (r # new)) [1..<Suc (length (r # new))]"
          unfolding step n2 pw2 by (simp add: upt_growing del: upt_Suc)
        have c: "results_file (snd (process_files env (f # files) rows w)) =
                  (if r # new = [] then results_file w else Some (rows @ r # new))"
          unfolding step n3 by (simp add: w2_def)
        have d: "\<forall>rs. fst (process_files env (f # files) rows w) = Inr rs \<longrightarrow>
                  rs = rows @ r # new \<and>
                  length (r # new) = length (filter (\<lambda>f. is_docx (fst f)) (f # files))"
          unfolding step using n4 True by simp
        have e: "events (snd (process_files env (f # files) rows w)) =
                  events w @
                  interleaved env (filter (\<lambda>f. is_docx (fst f)) (f # files)) rows (r # new) @
                  (if (\<exists>rs. fst (process_files env (f # files) rows w) = Inr rs) then []
                   else interrupted env (filter (\<lambda>f. is_docx (fst f)) (f # files))
                          (length (r # new)))"
          unfolding step n5 ew2 using True ir' by (simp add: interrupted_def)
        from a b c d e show ?thesis by blast
      qed
    qed
  qed
qed

text \<open>
  Claim C7. When the input folder lists a matching name, the successive contents given to
  the results file during \<open>main_process\<close> are the table of the first document, of the
  first two, and so on: after the \<open>k\<close>-th processed document the file holds exactly the
  rows of the documents processed so far, each row being the one inferred for its
  document, and nothing else is written in between (a table without rows is written at
  the end only when no document was processed). The log of the run has, for each document
  in turn, the request of that document and then the write of the table grown by its row:
  the table is on disk before the request of the next document is sent, never only at
  the end. A run that completes has processed every matching document of the tree; a
  run cut short by a failure has sent, beyond the rows it wrote, the request of the one
  document it was processing.
\<close>

theorem results_persisted_after_each_document:
  assumes "filter is_docx (listdir entries) \<noteq> []"
  shows "\<exists>rows.
     list_all2 (\<lambda>f r. fst (infer_row env f) = Inr r)
       (take (length rows) (filter (\<lambda>f. is_docx (fst f)) (os_walk entries))) rows \<and>
     persisted (snd (main_process env entries w)) =
       persisted w @ map (\<lambda>k. take k rows) [1..<Suc (length rows)] @
       (if rows = [] \<and> fst (main_process env entries w) = Inr () then [[]] else []) \<and>
     (fst (main_process env entries w) = Inr () \<longrightarrow>
        length rows = length (filter (\<lambda>f. is_docx (fst f)) (os_walk entries)) \<and>
        results_file (snd (main_process env entries w)) = Some rows) \<and>
     events (snd (main_process env entries w)) =
       events w @ interleaved env (filter (\<lambda>f. is_docx (fst f)) (os_walk entries)) [] rows @
       (if fst (main_process env entries w) = Inr ()
        then (if rows = [] then [Write []] else [])
        else interrupted env (filter (\<lambda>f. is_docx (fst f)) (os_walk entries)) (length rows))"
proof -
  obtain res w' where pf: "process_files env (os_walk entries) [] w = (res, w')"
    by (cases "process_files env (os_walk entries) [] w")
  have "\<exists>new. list_all2 (\<lambda>f r. fst (infer_row env f) = Inr r)
           (take (length new) (filter (\<lambda>f. is_docx (fst f)) (os_walk entries))) new \<and>
         persisted w' = persisted w @ map (\<lambda>k. take k new) [1..<Suc (length new)] \<and>
         results_file w' = (if new = [] then results_file w else Some new) \<and>
         (\<forall>rs. res = Inr rs \<longrightarrow>
           rs = new \<and> length new = length (filter (\<lambda>f. is_docx (fst f)) (os_walk entries))) \<and>
         events w' =
           events w @ interleaved env (filter (\<lambda>f. is_docx (fst f)) (os_walk entries)) [] new @
           (if (\<exists>rs. res = Inr rs) then []
            else interrupted env (filter (\<lambda>f. is_docx (fst f)) (os_walk entries)) (length new))"
    using process_files_trace [of env "os_walk entries" "[]" w]
    unfolding pf by (simp only: append_Nil fst_conv snd_conv)
  then obtain new where
    n1: "list_all2 (\<lambda>f r. fst (infer_row env f) = Inr r)
           (take (length new) (filter (\<lambda>f. is_docx (fst f)) (os_walk entries))) new"
    and n2: "persisted w' = persisted w @ map (\<lambda>k. take k new) [1..<Suc (length new)]"
    and n3: "results_file w' = (if new = [] then results_file w else Some new)"
    and n4: "\<forall>rs. res = Inr rs \<longrightarrow>
           rs = new \<and> length new = length (filter (\<lambda>f. is_docx (fst f)) (os_walk entries))"
    and n5: "events w' =
           events w @ interleaved env (filter (\<lambda>f. is_docx (fst f)) (os_walk entries)) [] new @
           (if (\<exists>rs. res = Inr rs) then []
            else interrupted env (filter (\<lambda>f. is_docx (fst f)) (os_walk entries)) (length new))"
    by blast
  show ?thesis
  proof (cases res)
    case (Inl e)
    have m: "main_process env entries w = (Inl e, w')"
      using assms pf Inl by (simp add: main_process_def)
    have n5': "events w' =
           events w @ interleaved env (filter (\<lambda>f. is_docx (fst f)) (os_walk entries)) [] new @
           interrupted env (filter (\<lambda>f. is_docx (fst f)) (os_walk entries)) (length new)"
      using n5 Inl by simp
    show ?thesis
      unfolding m using n1 n2 n5' by (intro exI [of _ new]) (simp del: upt_Suc)
  next
    case (Inr rs)
    with n4 have rs: "rs = new"
      and len: "length new = length (filter (\<lambda>f. is_docx (fst f)) (os_walk entries))"
      by simp_all
    have n5': "events w' =
           events w @ interleaved env (filter (\<lambda>f. is_docx (fst f)) (os_walk entries)) [] new"
      using n5 Inr by simp
    show ?thesis
    proof (cases "new = []")
      case False
      have m: "main_process env entries w = (Inr (), w')"
        using assms pf Inr rs False by (simp add: main_process_def)
      show ?thesis
        unfolding m using n1 n2 n3 n5' len False by (intro exI [of _ new]) (simp del: upt_Suc)
    next
      case True
      have nodocs: "filter (\<lambda>f. is_docx (fst f)) (os_walk entries) = []"
        using len True by simp
      show ?thesis
      proof (cases "write_fault env (writes w')")
        case (Some e)
        have m: "main_process env entries w = (Inl e, w'\<lparr>writes := Suc (writes w')\<rparr>)"
          using assms pf Inr rs True Some by (simp add: main_process_def to_excel_def)
        show ?thesis
          unfolding m using n1 n2 n5' True nodocs
          by (intro exI [of _ new]) (simp add: interrupted_def del: upt_Suc)
      next
        case None
        have m: "main_process env entries w =
                   (Inr (), w'\<lparr>results_file := Some [], persisted := persisted w' @ [[]],
                              events := events w' @ [Write []],
                              writes := Suc (writes w')\<rparr>)"
          using assms pf Inr rs True None by (simp add: main_process_def to_excel_def)
        show ?thesis
          unfolding m using n1 n2 n5' len True by (intro exI [of _ new]) (simp del: upt_Suc)
      qed
    qed
  qed
qed

theorem results_persisted_after_each_document_witness:
  "filter is_docx (listdir sample_tree) \<noteq> [] \<and>
   persisted (snd (main_process (sample_env sample_reply) sample_tree fresh_world)) =
     [[sample_row ''a.docx''], [sample_row ''a.docx'', sample_row ''B.DOCX'']] \<and>
   events (snd (main_process (sample_env sample_reply) sample_tree fresh_world)) =
     [Request ''Audit'', Write [sample_row ''a.docx''],
      Request ''Scope'', Write [sample_row ''a.docx'', sample_row ''B.DOCX'']] \<and>
   (\<exists>rows.
     list_all2 (\<lambda>f r. fst (infer_row (sample_env sample_reply) f) = Inr r)
       (take (length rows) (filter (\<lambda>f. is_docx (fst f)) (os_walk sample_tree))) rows \<and>
     persisted (snd (main_process (sample_env sample_reply) sample_tree fresh_world)) =
       persisted fresh_world @ map (\<lambda>k. take k rows) [1..<Suc (length rows)] @
       (if rows = [] \<and> fst (main_process (sample_env sample_reply) sample_tree fresh_world) = Inr ()
        then [[]] else []) \<and>
     events (snd (main_process (sample_env sample_reply) sample_tree fresh_world)) =
       events fresh_world @
       interleaved (sample_env sample_reply)
         (filter (\<lambda>f. is_docx (fst f)) (os_walk sample_tree)) [] rows @
       (if fst (main_process (sample_env sample_reply) sample_tree fresh_world) = Inr ()
        then (if rows = [] then [Write []] else [])
        else interrupted (sample_env sample_reply)
               (filter (\<lambda>f. is_docx (fst f)) (os_walk sample_tree)) (length rows)))"
proof -
  have h: "filter is_docx (listdir sample_tree) \<noteq> []"
    by code_simp
  have v: "persisted (snd (main_process (sample_env sample_reply) sample_tree fresh_world)) =
     [[sample_row ''a.docx''], [sample_row ''a.docx'', sample_row ''B.DOCX'']]"
    by code_simp
  have ev: "events (snd (main_process (sample_env sample_reply) sample_tree fresh_world)) =
     [Request ''Audit'', Write [sample_row ''a.docx''],
      Request ''Scope'', Write [sample_row ''a.docx'', sample_row ''B.DOCX'']]"
    by code_simp
  from results_persisted_after_each_document [OF h, of "sample_env sample_reply" fresh_world]
  have "\<exists>rows.
     list_all2 (\<lambda>f r. fst (infer_row (sample_env sample_reply) f) = Inr r)
       (take (length rows) (filter (\<lambda>f. is_docx (fst f)) (os_walk sample_tree))) rows \<and>
     persisted (snd (main_process (sample_env sample_reply) sample_tree fresh_world)) =
       persisted fresh_world @ map (\<lambda>k. take k rows) [1..<Suc (length rows)] @
       (if rows = [] \<and> fst (main_process (sample_env sample_reply) sample_tree fresh_world) = Inr ()
        then [[]] else []) \<and>
     events (snd (main_process (sample_env sample_reply) sample_tree fresh_world)) =
       events fresh_world @
       interleaved (sample_env sample_reply)
         (filter (\<lambda>f. is_docx (fst f)) (os_walk sample_tree)) [] rows @
       (if fst (main_process (sample_env sample_reply) sample_tree fresh_world) = Inr ()
        then (if rows = [] then [Write []] else [])
        else interrupted (sample_env sample_reply)
               (filter (\<lambda>f. is_docx (fst f)) (os_walk sample_tree)) (length rows))"
    by blast
  with h v ev show ?thesis by blast
qed

text \<open>
  Claim C8, amended. When the body of the main block raises, the handler attempts one
  write, of the table made of the single blank row. When that write goes through, the
  results file holds exactly that row, whatever rows it held when the failure happened,
  and the script ends without an exception. When that write raises too, its exception
  leaves the script and the results file is not replaced.
\<close>

theorem top_level_failure_writes_blank_row:
  assumes "fst (main_try env entries w) = Inl e"
  shows "(write_fault env (writes (snd (main_try env entries w))) = None \<longrightarrow>
            fst (script_main env entries w) = Inr () \<and>
            results_file (snd (script_main env entries w)) = Some [blank_row]) \<and>
         (\<forall>e'. write_fault env (writes (snd (main_try env entries w))) = Some e' \<longrightarrow>
            fst (script_main env entries w) = Inl e' \<and>
            results_file (snd (script_main env entries w)) =
              results_file (snd (main_try env entries w)))"
proof -
  obtain w' where t: "main_try env entries w = (Inl e, w')"
    using assms(1) by (cases "main_try env entries w") simp
  show ?thesis
    unfolding script_main_def t by (simp add: to_excel_def)
qed

theorem top_level_failure_writes_blank_row_witness:
  "fst (main_try (fault_at 2 sample_reply) sample_tree fresh_world) =
     Inl (OtherException ''PermissionError'') \<and>
   results_file (snd (main_try (fault_at 2 sample_reply) sample_tree fresh_world)) =
     Some [sample_row ''a.docx''] \<and>
   write_fault (fault_at 2 sample_reply)
     (writes (snd (main_try (fault_at 2 sample_reply) sample_tree fresh_world))) = None \<and>
   fst (script_main (fault_at 2 sample_reply) sample_tree fresh_world) = Inr () \<and>
   results_file (snd (script_main (fault_at 2 sample_reply) sample_tree fresh_world)) =
     Some [blank_row] \<and>
   fst (main_try (fault_from 2 sample_reply) sample_tree fresh_world) =
     Inl (OtherException ''PermissionError'') \<and>
   write_fault (fault_from 2 sample_reply)
     (writes (snd (main_try (fault_from 2 sample_reply) sample_tree fresh_world))) =
     Some (OtherException ''PermissionError'') \<and>
   fst (script_main (fault_from 2 sample_reply) sample_tree fresh_world) =
     Inl (OtherException ''PermissionError'')"
proof -
  have a: "fst (main_try (fault_at 2 sample_reply) sample_tree fresh_world) =
     Inl (OtherException ''PermissionError'')"
    by code_simp
  have b: "results_file (snd (main_try (fault_at 2 sample_reply) sample_tree fresh_world)) =
     Some [sample_row ''a.docx'']"
    by code_simp
  have c: "write_fault (fault_at 2 sample_reply)
     (writes (snd (main_try (fault_at 2 sample_reply) sample_tree fresh_world))) = None"
    by code_simp
  have a2: "fst (main_try (fault_from 2 sample_reply) sample_tree fresh_world) =
     Inl (OtherException ''PermissionError'')"
    by code_simp
  have c2: "write_fault (fault_from 2 sample_reply)
     (writes (snd (main_try (fault_from 2 sample_reply) sample_tree fresh_world))) =
     Some (OtherException ''PermissionError'')"
    by code_simp
  from top_level_failure_writes_blank_row [OF a] c
  have r1: "fst (script_main (fault_at 2 sample_reply) sample_tree fresh_world) = Inr () \<and>
     results_file (snd (script_main (fault_at 2 sample_reply) sample_tree fresh_world)) =
       Some [blank_row]"
    by blast
  from top_level_failure_writes_blank_row [OF a2] c2
  have r2: "fst (script_main (fault_from 2 sample_reply) sample_tree fresh_world) =
     Inl (OtherException ''PermissionError'')"
    by blast
  from a b c a2 c2 r1 r2 show ?thesis by blast
qed

text \<open>
  Claim C8 as stated fails when the disk keeps refusing the file: the second document's
  write raises, the handler's write of the blank row raises as well, the exception leaves
  the script, and the results file still holds the row of the first document.
\<close>

theorem persistent_fault_keeps_partial_results_counterexample:
  "fst (main_try (fault_from 2 sample_reply) sample_tree fresh_world) =
     Inl (OtherException ''PermissionError'') \<and>
   fst (script_main (fault_from 2 sample_reply) sample_tree fresh_world) =
     Inl (OtherException ''PermissionError'') \<and>
   results_file (snd (script_main (fault_from 2 sample_reply) sample_tree fresh_world)) =
     Some [sample_row ''a.docx''] \<and>
   [sample_row ''a.docx''] \<noteq> [blank_row]"
  by code_simp

text \<open>
  Claim C2, at an input folder whose only document lies in a subdirectory: the walk of the
  tree reaches \<^verbatim>\<open>report.docx\<close>, but the test before the loop looks at the names of the top
  folder only, so \<open>main_process\<close> writes the single blank row and returns without
  processing the document or calling the model.
\<close>

theorem nested_documents_get_placeholder:
  "map fst (filter (\<lambda>f. is_docx (fst f))
     (os_walk [DirN ''2023'' [FileN ''report.docx'' (Inr [''Audit''])]])) = [''report.docx''] \<and>
   main_process (sample_env sample_reply)
     [DirN ''2023'' [FileN ''report.docx'' (Inr [''Audit''])]] fresh_world =
     (Inr (), \<lparr>results_file = Some [blank_row], persisted = [[blank_row]], writes = 1,
               requests = [], events = [Write [blank_row]]\<rparr>)"
  by code_simp

section \<open>Properties of the parsing of the reply\<close>

lemma strip_sentinels:
  "strip ''Unknown'' = ''Unknown''" "strip ''Unknown Department'' = ''Unknown Department''"
  "clean_location ''Unknown'' = ''Unknown''"
  by code_simp+

lemma get_stripped_string_field:
  assumes "case dict_lookup members key of
             None \<Rightarrow> True | Some (JString s) \<Rightarrow> True | Some _ \<Rightarrow> False"
    and "strip dflt = dflt"
  shows "get_stripped (JObject members) key dflt = Inr (field_text members key dflt)"
  using assms
  by (auto simp: get_stripped_def dict_get_def str_strip_def bind_exn_def field_text_def
           split: option.splits json.splits)

lemma read_fields_strings:
  assumes "string_fields members"
  shows "read_fields (JObject members) = Inr (metadata_of members)"
proof -
  have k: "\<And>key. key \<in> set metadata_keys \<Longrightarrow>
             (case dict_lookup members key of
                None \<Rightarrow> True | Some (JString s) \<Rightarrow> True | Some _ \<Rightarrow> False)"
    using assms by (simp add: string_fields_def list_all_iff)
  have s1: "get_stripped (JObject members) ''state'' ''Unknown'' =
              Inr (field_text members ''state'' ''Unknown'')"
    by (rule get_stripped_string_field [OF k strip_sentinels(1)]) (simp add: metadata_keys_def)
  have s2: "get_stripped (JObject members) ''location'' ''Unknown'' =
              Inr (field_text members ''location'' ''Unknown'')"
    by (rule get_stripped_string_field [OF k strip_sentinels(1)]) (simp add: metadata_keys_def)
  have s3: "get_stripped (JObject members) ''department'' ''Unknown Department'' =
              Inr (field_text members ''department'' ''Unknown Department'')"
    by (rule get_stripped_string_field [OF k strip_sentinels(2)]) (simp add: metadata_keys_def)
  have s4: "get_stripped (JObject members) ''audit_conducted_year'' ''Unknown'' =
              Inr (field_text members ''audit_conducted_year'' ''Unknown'')"
    by (rule get_stripped_string_field [OF k strip_sentinels(1)]) (simp add: metadata_keys_def)
  have s5: "get_stripped (JObject members) ''financial_year'' ''Unknown'' =
              Inr (field_text members ''financial_year'' ''Unknown'')"
    by (rule get_stripped_string_field [OF k strip_sentinels(1)]) (simp add: metadata_keys_def)
  have loc: "clean_location (field_text members ''location'' ''Unknown'') =
               (case dict_lookup members ''location'' of
                  Some (JString s) \<Rightarrow> clean_location (strip s) | _ \<Rightarrow> ''Unknown'')"
    by (simp add: field_text_def strip_sentinels(3) split: option.splits json.splits)
  show ?thesis
    unfolding read_fields_def s1 s2 s3 s4 s5
    by (simp add: bind_exn_def metadata_of_def loc)
qed

lemma re_search_braces_span:
  assumes "CHR ''{'' \<notin> set pre" and "CHR ''}'' \<notin> set post"
  shows "re_search_braces (pre @ CHR ''{'' # body @ CHR ''}'' # post) =
           Some (CHR ''{'' # body @ ''}'')"
proof -
  have a: "dropWhile (\<lambda>c. c \<noteq> CHR ''{'') (pre @ CHR ''{'' # body @ CHR ''}'' # post) =
             CHR ''{'' # body @ CHR ''}'' # post"
    using assms(1) by (auto simp: dropWhile_append3)
  have b: "dropWhile (\<lambda>c. c \<noteq> CHR ''}'') (rev post @ CHR ''}'' # rev body) = CHR ''}'' # rev body"
    using assms(2) by (auto simp: dropWhile_append3)
  show ?thesis
    unfolding re_search_braces_def a by (simp add: b)
qed

lemma re_search_braces_none:
  "re_search_braces content = None \<longleftrightarrow>
     CHR ''}'' \<notin> set (dropWhile (\<lambda>c. c \<noteq> CHR ''{'') content)"
proof (cases "dropWhile (\<lambda>c. c \<noteq> CHR ''{'') content")
  case Nil
  show ?thesis unfolding re_search_braces_def Nil by simp
next
  case (Cons b rest)
  then have hb: "b = CHR ''{''"
    using hd_dropWhile [of "\<lambda>c. c \<noteq> CHR ''{''" content] by auto
  have r: "re_search_braces content =
             (case dropWhile (\<lambda>c. c \<noteq> CHR ''}'') (rev rest) of
                [] \<Rightarrow> None | e # body \<Rightarrow> Some (b # rev (e # body)))"
    unfolding re_search_braces_def Cons by (simp only: list.case)
  have m: "CHR ''}'' \<in> set (b # rest) \<longleftrightarrow> CHR ''}'' \<in> set rest"
    using hb by simp
  show ?thesis
  proof (cases "dropWhile (\<lambda>c. c \<noteq> CHR ''}'') (rev rest)")
    case Nil
    have "\<forall>x\<in>set (rev rest). x \<noteq> CHR ''}''"
      by (rule iffD1 [OF dropWhile_eq_Nil_conv, OF Nil])
    then have "CHR ''}'' \<notin> set rest" by auto
    moreover have "re_search_braces content = None"
      unfolding r Nil by (simp only: list.case)
    ultimately show ?thesis unfolding Cons m by (simp only: simp_thms)
  next
    case (Cons e body)
    have "\<not> (\<forall>x\<in>set (rev rest). x \<noteq> CHR ''}'')"
    proof
      assume a: "\<forall>x\<in>set (rev rest). x \<noteq> CHR ''}''"
      have "dropWhile (\<lambda>c. c \<noteq> CHR ''}'') (rev rest) = []"
        by (rule iffD2 [OF dropWhile_eq_Nil_conv]) (rule a)
      with Cons show False by (simp only: list.distinct)
    qed
    then have "CHR ''}'' \<in> set rest" by auto
    moreover have "re_search_braces content \<noteq> None"
      unfolding r Cons by (simp only: list.case) simp
    ultimately show ?thesis unfolding \<open>dropWhile (\<lambda>c. c \<noteq> CHR ''{'') content = b # rest\<close> m
      by (simp only: simp_thms)
  qed
qed

lemma strip_around_braces:
  "\<exists>pre' post'. set pre' \<subseteq> set pre \<and> set post' \<subseteq> set post \<and>
     strip (pre @ CHR ''{'' # body @ CHR ''}'' # post) =
       pre' @ CHR ''{'' # body @ CHR ''}'' # post'"
proof -
  have ob: "\<not> is_space (CHR ''{'')" and cb: "\<not> is_space (CHR ''}'')"
    by (simp_all add: is_space_def)
  have a: "dropWhile is_space (pre @ CHR ''{'' # body @ CHR ''}'' # post) =
             dropWhile is_space pre @ CHR ''{'' # body @ CHR ''}'' # post"
    using ob by (simp add: dropWhile_append3)
  have b: "dropWhile is_space (rev (dropWhile is_space pre @ CHR ''{'' # body @ CHR ''}'' # post)) =
             dropWhile is_space (rev post) @ CHR ''}'' # rev body @ CHR ''{'' # rev (dropWhile is_space pre)"
    using cb by (simp add: dropWhile_append3)
  have c: "strip (pre @ CHR ''{'' # body @ CHR ''}'' # post) =
             dropWhile is_space pre @ CHR ''{'' # body @ CHR ''}'' # rev (dropWhile is_space (rev post))"
    unfolding strip_def a b by simp
  have d: "set (dropWhile is_space pre) \<subseteq> set pre"
    by (auto dest: set_dropWhileD)
  have e: "set (rev (dropWhile is_space (rev post))) \<subseteq> set post"
    by (auto dest: set_dropWhileD)
  from c d e show ?thesis by blast
qed

lemma analyze_of_parse_reply:
  assumes "doc_text \<noteq> []" and "model doc_text = Inr reply"
    and "parse_reply (strip reply) = x"
  shows "analyze_ir_content model doc_text =
           (Inr (case x of Inl e \<Rightarrow> default_metadata | Inr m \<Rightarrow> m), [doc_text])"
  using assms
  by (simp add: analyze_ir_content_def try_except_Exception_def bind_exn_def split: sum.splits)

lemma get_stripped_exn:
  "get_stripped v key dflt = Inl e \<Longrightarrow> e = AttributeError"
  by (auto simp: get_stripped_def dict_get_def str_strip_def bind_exn_def
           split: json.splits option.splits)

lemma bind_exn_Inl:
  "bind_exn r f = Inl e \<Longrightarrow> r = Inl e \<or> (\<exists>v. r = Inr v \<and> f v = Inl e)"
  by (cases r) (simp_all add: bind_exn_def)

lemma read_fields_exn:
  assumes "read_fields v = Inl e"
  shows "e = AttributeError"
proof -
  note g = get_stripped_exn [of v _ _ e]
  from assms show ?thesis
    unfolding read_fields_def Let_def
    by (auto dest!: bind_exn_Inl dest: g)
qed

lemma parse_reply_strict:
  assumes "json_loads content = Inr v"
  shows "parse_reply content = read_fields v"
proof (cases "read_fields v")
  case (Inl e)
  with read_fields_exn [of v e] have "read_fields v = Inl AttributeError" by simp
  then show ?thesis
    using assms by (simp add: parse_reply_def try_except_JSONDecodeError_def bind_exn_def)
next
  case (Inr m)
  then show ?thesis
    using assms by (simp add: parse_reply_def try_except_JSONDecodeError_def bind_exn_def)
qed

lemma parse_reply_fallback:
  assumes "json_loads content = Inl JSONDecodeError"
  shows "parse_reply content =
           (case re_search_braces content of
              Some json_match \<Rightarrow> bind_exn (json_loads json_match) read_fields
            | None \<Rightarrow> Inr default_metadata)"
  using assms by (simp add: parse_reply_def try_except_JSONDecodeError_def bind_exn_def)


lemma fallback_on_span:
  assumes "doc_text \<noteq> []" and "model doc_text = Inr reply"
    and "json_loads (strip reply) = Inl JSONDecodeError"
    and "strip reply = pre @ CHR ''{'' # body @ CHR ''}'' # post"
    and "CHR ''{'' \<notin> set pre" and "CHR ''}'' \<notin> set post"
  shows "analyze_ir_content model doc_text =
           (Inr (case bind_exn (json_loads (CHR ''{'' # body @ ''}'')) read_fields of
                   Inl e \<Rightarrow> default_metadata | Inr m \<Rightarrow> m), [doc_text])"
proof -
  have "re_search_braces (strip reply) = Some (CHR ''{'' # body @ ''}'')"
    unfolding assms(4) by (rule re_search_braces_span [OF assms(5,6)])
  then have "parse_reply (strip reply) = bind_exn (json_loads (CHR ''{'' # body @ ''}'')) read_fields"
    by (simp add: parse_reply_fallback [OF assms(3)])
  from analyze_of_parse_reply [of doc_text model reply, OF assms(1,2) this] show ?thesis .
qed

text \<open>
  Claim C1, amended. For a reply of the model to a document with text:
  when the trimmed reply parses strictly to an object whose expected keys hold strings,
  the result is the five fields of that object;
  when the strict parse fails, the fallback takes the text from the first opening brace
  to the last closing brace of the reply (not to the first one) and parses that, giving
  its five fields, or the five defaults when it does not parse;
  when there is no closing brace after the first opening brace, the result is the five
  defaults. So a reply that is not JSON as a whole and that holds, inside prose with no
  opening brace before it and no closing brace after it, a JSON object whose expected
  keys hold strings, gives the fields of that object. A key that is missing from the
  object gets its default sentinel.
\<close>

theorem reply_parsing_policy:
  assumes "doc_text \<noteq> []" and "model doc_text = Inr reply"
  shows
  "(json_loads (strip reply) = Inr (JObject members) \<longrightarrow> string_fields members \<longrightarrow>
      analyze_ir_content model doc_text = (Inr (metadata_of members), [doc_text])) \<and>
   (json_loads (strip reply) = Inl JSONDecodeError \<longrightarrow>
      strip reply = pre @ CHR ''{'' # body @ CHR ''}'' # post \<longrightarrow>
      CHR ''{'' \<notin> set pre \<longrightarrow> CHR ''}'' \<notin> set post \<longrightarrow>
        (json_loads (CHR ''{'' # body @ ''}'') = Inr (JObject members) \<longrightarrow>
         string_fields members \<longrightarrow>
           analyze_ir_content model doc_text = (Inr (metadata_of members), [doc_text])) \<and>
        ((\<exists>e. json_loads (CHR ''{'' # body @ ''}'') = Inl e) \<longrightarrow>
           analyze_ir_content model doc_text = (Inr default_metadata, [doc_text]))) \<and>
   (json_loads (strip reply) = Inl JSONDecodeError \<longrightarrow>
      CHR ''}'' \<notin> set (dropWhile (\<lambda>c. c \<noteq> CHR ''{'') (strip reply)) \<longrightarrow>
      analyze_ir_content model doc_text = (Inr default_metadata, [doc_text])) \<and>
   (reply = pre @ CHR ''{'' # body @ CHR ''}'' # post \<longrightarrow>
      CHR ''{'' \<notin> set pre \<longrightarrow> CHR ''}'' \<notin> set post \<longrightarrow>
      json_loads (strip reply) = Inl JSONDecodeError \<longrightarrow>
      json_loads (CHR ''{'' # body @ ''}'') = Inr (JObject members) \<longrightarrow>
      string_fields members \<longrightarrow>
      analyze_ir_content model doc_text = (Inr (metadata_of members), [doc_text])) \<and>
   (dict_lookup members ''state'' = None \<longrightarrow> fst (metadata_of members) = ''Unknown'') \<and>
   (dict_lookup members ''location'' = None \<longrightarrow>
      fst (snd (metadata_of members)) = ''Unknown'') \<and>
   (dict_lookup members ''department'' = None \<longrightarrow>
      fst (snd (snd (metadata_of members))) = ''Unknown Department'') \<and>
   (dict_lookup members ''audit_conducted_year'' = None \<longrightarrow>
      fst (snd (snd (snd (metadata_of members)))) = ''Unknown'') \<and>
   (dict_lookup members ''financial_year'' = None \<longrightarrow>
      snd (snd (snd (snd (metadata_of members)))) = ''Unknown'')"
proof -
  have p1: "json_loads (strip reply) = Inr (JObject members) \<longrightarrow> string_fields members \<longrightarrow>
      analyze_ir_content model doc_text = (Inr (metadata_of members), [doc_text])"
  proof (intro impI)
    assume a: "json_loads (strip reply) = Inr (JObject members)" and b: "string_fields members"
    have "parse_reply (strip reply) = Inr (metadata_of members)"
      by (simp add: parse_reply_strict [OF a] read_fields_strings [OF b])
    from analyze_of_parse_reply [of doc_text model reply, OF assms this] show
      "analyze_ir_content model doc_text = (Inr (metadata_of members), [doc_text])" by simp
  qed
  have p2: "json_loads (strip reply) = Inl JSONDecodeError \<longrightarrow>
      strip reply = pre @ CHR ''{'' # body @ CHR ''}'' # post \<longrightarrow>
      CHR ''{'' \<notin> set pre \<longrightarrow> CHR ''}'' \<notin> set post \<longrightarrow>
        (json_loads (CHR ''{'' # body @ ''}'') = Inr (JObject members) \<longrightarrow>
         string_fields members \<longrightarrow>
           analyze_ir_content model doc_text = (Inr (metadata_of members), [doc_text])) \<and>
        ((\<exists>e. json_loads (CHR ''{'' # body @ ''}'') = Inl e) \<longrightarrow>
           analyze_ir_content model doc_text = (Inr default_metadata, [doc_text]))"
  proof (intro impI)
    assume a: "json_loads (strip reply) = Inl JSONDecodeError"
      and b: "strip reply = pre @ CHR ''{'' # body @ CHR ''}'' # post"
      and c: "CHR ''{'' \<notin> set pre" and d: "CHR ''}'' \<notin> set post"
    note f = fallback_on_span [of doc_text model reply, OF assms a b c d]
    show "(json_loads (CHR ''{'' # body @ ''}'') = Inr (JObject members) \<longrightarrow>
         string_fields members \<longrightarrow>
           analyze_ir_content model doc_text = (Inr (metadata_of members), [doc_text])) \<and>
        ((\<exists>e. json_loads (CHR ''{'' # body @ ''}'') = Inl e) \<longrightarrow>
           analyze_ir_content model doc_text = (Inr default_metadata, [doc_text]))"
      unfolding f by (auto simp: bind_exn_def read_fields_strings)
  qed
  have p3: "json_loads (strip reply) = Inl JSONDecodeError \<longrightarrow>
      CHR ''}'' \<notin> set (dropWhile (\<lambda>c. c \<noteq> CHR ''{'') (strip reply)) \<longrightarrow>
      analyze_ir_content model doc_text = (Inr default_metadata, [doc_text])"
  proof (intro impI)
    assume a: "json_loads (strip reply) = Inl JSONDecodeError"
      and b: "CHR ''}'' \<notin> set (dropWhile (\<lambda>c. c \<noteq> CHR ''{'') (strip reply))"
    have "re_search_braces (strip reply) = None"
      by (rule iffD2 [OF re_search_braces_none]) (rule b)
    then have "parse_reply (strip reply) = Inr default_metadata"
      by (simp add: parse_reply_fallback [OF a])
    from analyze_of_parse_reply [of doc_text model reply, OF assms this] show
      "analyze_ir_content model doc_text = (Inr default_metadata, [doc_text])" by simp
  qed
  have p4: "reply = pre @ CHR ''{'' # body @ CHR ''}'' # post \<longrightarrow>
      CHR ''{'' \<notin> set pre \<longrightarrow> CHR ''}'' \<notin> set post \<longrightarrow>
      json_loads (strip reply) = Inl JSONDecodeError \<longrightarrow>
      json_loads (CHR ''{'' # body @ ''}'') = Inr (JObject members) \<longrightarrow>
      string_fields members \<longrightarrow>
      analyze_ir_content model doc_text = (Inr (metadata_of members), [doc_text])"
  proof (intro impI)
    assume r: "reply = pre @ CHR ''{'' # body @ CHR ''}'' # post"
      and c: "CHR ''{'' \<notin> set pre" and d: "CHR ''}'' \<notin> set post"
      and a: "json_loads (strip reply) = Inl JSONDecodeError"
      and j: "json_loads (CHR ''{'' # body @ ''}'') = Inr (JObject members)"
      and sf: "string_fields members"
    from strip_around_braces [of pre post body] obtain pre' post' where
      s1: "set pre' \<subseteq> set pre" and s2: "set post' \<subseteq> set post"
      and s3: "strip reply = pre' @ CHR ''{'' # body @ CHR ''}'' # post'"
      unfolding r by blast
    from s1 c have c': "CHR ''{'' \<notin> set pre'" by blast
    from s2 d have d': "CHR ''}'' \<notin> set post'" by blast
    show "analyze_ir_content model doc_text = (Inr (metadata_of members), [doc_text])"
      unfolding fallback_on_span [of doc_text model reply, OF assms a s3 c' d']
      by (simp add: j bind_exn_def read_fields_strings [OF sf])
  qed
  have p5: "(dict_lookup members ''state'' = None \<longrightarrow> fst (metadata_of members) = ''Unknown'') \<and>
   (dict_lookup members ''location'' = None \<longrightarrow>
      fst (snd (metadata_of members)) = ''Unknown'') \<and>
   (dict_lookup members ''department'' = None \<longrightarrow>
      fst (snd (snd (metadata_of members))) = ''Unknown Department'') \<and>
   (dict_lookup members ''audit_conducted_year'' = None \<longrightarrow>
      fst (snd (snd (snd (metadata_of members)))) = ''Unknown'') \<and>
   (dict_lookup members ''financial_year'' = None \<longrightarrow>
      snd (snd (snd (snd (metadata_of members)))) = ''Unknown'')"
    by (simp add: metadata_of_def field_text_def)
  from p1 p2 p3 p4 p5 show ?thesis by blast
qed

theorem reply_parsing_policy_witness:
  "json_loads (strip ''Answer {\"state\": \"Goa \", \"location\": \"12 Main Road\"} ok'') =
     Inl JSONDecodeError \<and>
   json_loads (CHR ''{'' # ''\"state\": \"Goa \", \"location\": \"12 Main Road\"'' @ ''}'') =
     Inr (JObject [(''state'', JString ''Goa ''), (''location'', JString ''12 Main Road'')]) \<and>
   string_fields [(''state'', JString ''Goa ''), (''location'', JString ''12 Main Road'')] \<and>
   analyze_ir_content
     (fixed_reply ''Answer {\"state\": \"Goa \", \"location\": \"12 Main Road\"} ok'') ''report'' =
     (Inr (''Goa'', ''12'', ''Unknown Department'', ''Unknown'', ''Unknown''), [''report'']) \<and>
   json_loads (strip ''I cannot read this report.'') = Inl JSONDecodeError \<and>
   analyze_ir_content (fixed_reply ''I cannot read this report.'') ''report'' =
     (Inr default_metadata, [''report''])"
proof -
  let ?R = "''Answer {\"state\": \"Goa \", \"location\": \"12 Main Road\"} ok''"
  let ?body = "''\"state\": \"Goa \", \"location\": \"12 Main Road\"''"
  let ?members = "[(''state'', JString ''Goa ''), (''location'', JString ''12 Main Road'')]"
  let ?N = "''I cannot read this report.''"
  have n: "''report'' \<noteq> []" by simp
  have m: "fixed_reply ?R ''report'' = Inr ?R" by (simp add: fixed_reply_def)
  have r: "?R = ''Answer '' @ CHR ''{'' # ?body @ CHR ''}'' # '' ok''" by simp
  have c: "CHR ''{'' \<notin> set ''Answer ''" by simp
  have d: "CHR ''}'' \<notin> set '' ok''" by simp
  have a: "json_loads (strip ?R) = Inl JSONDecodeError" by code_simp
  have j: "json_loads (CHR ''{'' # ?body @ ''}'') = Inr (JObject ?members)" by code_simp
  have sf: "string_fields ?members" by code_simp
  have md: "metadata_of ?members = (''Goa'', ''12'', ''Unknown Department'', ''Unknown'', ''Unknown'')"
    by code_simp
  from reply_parsing_policy
         [of "''report''" "fixed_reply ?R" ?R ?members "''Answer ''" ?body "'' ok''", OF n m]
  have "analyze_ir_content (fixed_reply ?R) ''report'' = (Inr (metadata_of ?members), [''report''])"
    using r c d a j sf by blast
  then have w1: "analyze_ir_content (fixed_reply ?R) ''report'' =
     (Inr (''Goa'', ''12'', ''Unknown Department'', ''Unknown'', ''Unknown''), [''report''])"
    by (simp only: md)
  have m2: "fixed_reply ?N ''report'' = Inr ?N" by (simp add: fixed_reply_def)
  have a2: "json_loads (strip ?N) = Inl JSONDecodeError" by code_simp
  have b2: "CHR ''}'' \<notin> set (dropWhile (\<lambda>c. c \<noteq> CHR ''{'') (strip ?N))" by code_simp
  from reply_parsing_policy [of "''report''" "fixed_reply ?N" ?N, OF n m2]
  have w2: "analyze_ir_content (fixed_reply ?N) ''report'' = (Inr default_metadata, [''report''])"
    using a2 b2 by blast
  from a j sf w1 a2 w2 show ?thesis by blast
qed

text \<open>
  Claim C1 as stated fails on a reply whose prose has a brace after the object: the first
  brace-delimited substring is an object with the state Goa, the pattern of the program
  matches up to the last closing brace, that text is not JSON, and the result is the tuple
  of defaults.
\<close>

theorem first_brace_object_counterexample:
  "spec_first_brace_delimited ''Answer {\"state\": \"Goa\"} as {json}'' =
     Some ''{\"state\": \"Goa\"}'' \<and>
   bind_exn (json_loads ''{\"state\": \"Goa\"}'') read_fields =
     Inr (''Goa'', ''Unknown'', ''Unknown Department'', ''Unknown'', ''Unknown'') \<and>
   json_loads (strip ''Answer {\"state\": \"Goa\"} as {json}'') = Inl JSONDecodeError \<and>
   re_search_braces (strip ''Answer {\"state\": \"Goa\"} as {json}'') =
     Some ''{\"state\": \"Goa\"} as {json}'' \<and>
   json_loads ''{\"state\": \"Goa\"} as {json}'' = Inl JSONDecodeError \<and>
   analyze_ir_content (fixed_reply ''Answer {\"state\": \"Goa\"} as {json}'') ''report'' =
     (Inr (''Unknown'', ''Unknown'', ''Unknown Department'', ''Unknown'', ''Unknown''),
      [''report''])"
  by code_simp

section \<open>Properties of location cleanup\<close>

lemma split_on_nonempty: "split_on sep s \<noteq> []"
  by (induction s) (auto simp: Let_def)

lemma split_on_notin: "sep \<notin> set s \<Longrightarrow> split_on sep s = [s]"
  by (induction s) (auto simp: Let_def)

lemma split_on_first:
  "sep \<notin> set l \<Longrightarrow> split_on sep (l @ sep # rest) = l # split_on sep rest"
  by (induction l) (auto simp: Let_def)

lemma split_on_in: "sep \<in> set s \<Longrightarrow> tl (split_on sep s) \<noteq> []"
proof (induction s)
  case Nil
  then show ?case by simp
next
  case (Cons x xs)
  show ?case
  proof (cases "x = sep")
    case True
    then show ?thesis by (simp add: split_on_nonempty)
  next
    case False
    with Cons show ?thesis by (simp add: Let_def)
  qed
qed

lemma last_split_on:
  "last (split_on sep s) = rev (takeWhile (\<lambda>c. c \<noteq> sep) (rev s))"
proof (induction s)
  case Nil
  show ?case by simp
next
  case (Cons x xs)
  show ?case
  proof (cases "x = sep")
    case True
    then show ?thesis
      using Cons by (auto simp: split_on_nonempty takeWhile_append)
  next
    case False
    show ?thesis
    proof (cases "sep \<in> set xs")
      case True
      have t: "tl (split_on sep xs) \<noteq> []" using True by (rule split_on_in)
      have "last (split_on sep (x # xs)) = last (tl (split_on sep xs))"
        using False t by (simp add: Let_def)
      also have "\<dots> = last (split_on sep xs)"
        using t by (cases "split_on sep xs") auto
      also have "\<dots> = rev (takeWhile (\<lambda>c. c \<noteq> sep) (rev xs))" by (rule Cons.IH)
      also have "\<dots> = rev (takeWhile (\<lambda>c. c \<noteq> sep) (rev (x # xs)))"
        using True by (auto simp: takeWhile_append)
      finally show ?thesis .
    next
      case notin: False
      then show ?thesis
        using False by (auto simp: split_on_notin Let_def takeWhile_append)
    qed
  qed
qed

lemma keywords_checked:
  "list_all (\<lambda>k. k \<noteq> [] \<and> lower k = k \<and>
               list_all (\<lambda>c. 97 \<le> (of_char c :: nat) \<and> (of_char c :: nat) \<le> 122) k)
     roadway_keywords"
  by code_simp

lemma keyword_facts:
  assumes "k \<in> set roadway_keywords"
  shows "k \<noteq> []" and "lower k = k"
    and "\<And>c. c \<in> set k \<Longrightarrow> 97 \<le> (of_char c :: nat) \<and> (of_char c :: nat) \<le> 122"
  using assms keywords_checked by (auto simp: list_all_iff)

lemma lower_is_word:
  "97 \<le> (of_char (lower_char c) :: nat) \<Longrightarrow> (of_char (lower_char c) :: nat) \<le> 122 \<Longrightarrow>
   is_word_char c"
  by (auto simp: lower_char_def is_word_char_def Let_def split: if_splits)

lemma newline_not_word: "\<not> is_word_char newline"
  by (simp add: is_word_char_def)

lemma keyword_prefix_word:
  assumes k: "k \<in> set roadway_keywords"
    and len: "length k \<le> length s" and eq: "lower (take (length k) s) = k"
    and j: "j < length k"
  shows "is_word_char (s ! j)"
proof -
  have "lower (take (length k) s) ! j = lower_char (s ! j)"
    using j len by (simp add: lower_def)
  then have e: "lower_char (s ! j) = k ! j" using eq by simp
  have "k ! j \<in> set k" using j by simp
  from keyword_facts(3) [OF k this] e show ?thesis
    by (intro lower_is_word) simp_all
qed

lemma ci_prefix_keyword:
  "k \<in> set roadway_keywords \<Longrightarrow>
   ci_prefix k s \<longleftrightarrow> length k \<le> length s \<and> lower (take (length k) s) = k"
  by (simp add: ci_prefix_def keyword_facts(2))

lemma keyword_here_iff:
  assumes k: "k \<in> set roadway_keywords"
  shows "keyword_here s k \<longleftrightarrow>
           length k \<le> length s \<and> lower (take (length k) s) = k \<and>
           \<not> is_word_opt (char_at s (length k))"
proof (cases "length k \<le> length s \<and> lower (take (length k) s) = k")
  case False
  then show ?thesis by (auto simp: keyword_here_def ci_prefix_keyword [OF k])
next
  case True
  have pos: "0 < length k" using keyword_facts(1) [OF k] by simp
  then have "length k - 1 < length k" by simp
  from keyword_prefix_word [OF k _ _ this] True
  have "is_word_char (s ! (length k - 1))" by blast
  moreover have "length k - 1 < length s" using pos True by (cases k) auto
  ultimately have "is_word_opt (char_at s (length k - 1))"
    by (simp add: is_word_opt_def char_at_def)
  then show ?thesis
    using True by (simp add: keyword_here_def ci_prefix_keyword [OF k] word_boundary_def)
qed

lemma keyword_first_word:
  assumes k: "k \<in> set roadway_keywords" and "keyword_here s k"
  shows "is_word_opt (char_at s 0)"
proof -
  from assms have t: "length k \<le> length s" "lower (take (length k) s) = k"
    by (simp_all add: keyword_here_iff)
  have pos: "0 < length k" using keyword_facts(1) [OF k] by simp
  from keyword_prefix_word [OF k t pos] have "is_word_char (s ! 0)" .
  moreover have "0 < length s" using pos t(1) by linarith
  ultimately show ?thesis by (simp add: is_word_opt_def char_at_def)
qed

lemma roadway_match_None_iff:
  "roadway_match prev s = None \<longleftrightarrow> \<not> token_here prev s"
proof (cases "filter (keyword_here s) roadway_keywords")
  case Nil
  then have no: "\<forall>k\<in>set roadway_keywords. \<not> keyword_here s k"
    by (simp add: filter_empty_conv)
  then have "\<not> token_here prev s"
    by (auto simp: token_here_def keyword_here_iff)
  moreover have "roadway_match prev s = None"
    by (simp add: roadway_match_def Nil)
  ultimately show ?thesis by simp
next
  case (Cons k ks)
  then have "k \<in> set (filter (keyword_here s) roadway_keywords)" by simp
  then have k: "k \<in> set roadway_keywords" and kh: "keyword_here s k" by simp_all
  have w: "is_word_opt (char_at s 0)" by (rule keyword_first_word [OF k kh])
  have "token_here prev s \<longleftrightarrow> \<not> is_word_opt prev"
    using k kh by (auto simp: token_here_def keyword_here_iff)
  moreover have "roadway_match prev s = None \<longleftrightarrow> is_word_opt prev"
    using w by (simp add: roadway_match_def Cons word_boundary_def)
  ultimately show ?thesis by simp
qed

lemma roadway_match_Some:
  assumes "roadway_match prev s = Some n"
  shows "\<exists>k\<in>set roadway_keywords. k \<noteq> [] \<and> length k \<le> length s \<and>
           (\<forall>j<length k. is_word_char (s ! j)) \<and>
           n = length k + length (takeWhile (\<lambda>c. c \<noteq> newline) (drop (length k) s))"
proof (cases "filter (keyword_here s) roadway_keywords")
  case Nil
  with assms show ?thesis by (simp add: roadway_match_def split: if_splits)
next
  case (Cons k ks)
  then have "k \<in> set (filter (keyword_here s) roadway_keywords)" by simp
  then have k: "k \<in> set roadway_keywords" and kh: "keyword_here s k" by simp_all
  from kh have t: "length k \<le> length s" "lower (take (length k) s) = k"
    by (simp_all add: keyword_here_iff [OF k])
  have n: "n = length k + length (takeWhile (\<lambda>c. c \<noteq> newline) (drop (length k) s))"
    using assms by (simp add: roadway_match_def Cons split: if_splits)
  have "\<forall>j<length k. is_word_char (s ! j)"
    using keyword_prefix_word [OF k t] by blast
  with k keyword_facts(1) [OF k] t(1) n show ?thesis by blast
qed

lemma keyword_inside_line:
  assumes k: "k \<in> set roadway_keywords" and nl: "newline \<notin> set l"
    and len: "length k \<le> length (l @ newline # rest)"
    and eq: "lower (take (length k) (l @ newline # rest)) = k"
  shows "length k \<le> length l"
proof (rule ccontr)
  assume "\<not> length k \<le> length l"
  then have j: "length l < length k" by simp
  from keyword_prefix_word [OF k len eq j]
  have "is_word_char ((l @ newline # rest) ! length l)" .
  then show False by (simp add: newline_not_word)
qed

lemma char_at_line_end:
  "n \<le> length l \<Longrightarrow>
   is_word_opt (char_at (l @ newline # rest) n) = is_word_opt (char_at l n)"
  by (cases "n = length l")
     (auto simp: char_at_def is_word_opt_def newline_not_word nth_append)

lemma token_here_line:
  assumes nl: "newline \<notin> set l"
  shows "token_here prev (l @ newline # rest) \<longleftrightarrow> token_here prev l"
proof
  assume "token_here prev (l @ newline # rest)"
  then obtain k where p: "\<not> is_word_opt prev" and k: "k \<in> set roadway_keywords"
    and len: "length k \<le> length (l @ newline # rest)"
    and eq: "lower (take (length k) (l @ newline # rest)) = k"
    and b: "\<not> is_word_opt (char_at (l @ newline # rest) (length k))"
    unfolding token_here_def by blast
  have kl: "length k \<le> length l" by (rule keyword_inside_line [OF k nl len eq])
  have "lower (take (length k) l) = k" using eq kl by simp
  moreover have "\<not> is_word_opt (char_at l (length k))"
    using b char_at_line_end [OF kl] by simp
  ultimately show "token_here prev l"
    unfolding token_here_def using p k kl by blast
next
  assume "token_here prev l"
  then obtain k where p: "\<not> is_word_opt prev" and k: "k \<in> set roadway_keywords"
    and kl: "length k \<le> length l"
    and eq: "lower (take (length k) l) = k"
    and b: "\<not> is_word_opt (char_at l (length k))"
    unfolding token_here_def by blast
  have "lower (take (length k) (l @ newline # rest)) = k" using eq kl by simp
  moreover have "\<not> is_word_opt (char_at (l @ newline # rest) (length k))"
    using b char_at_line_end [OF kl] by simp
  moreover have "length k \<le> length (l @ newline # rest)" using kl by simp
  ultimately show "token_here prev (l @ newline # rest)"
    unfolding token_here_def using p k by blast
qed

lemma token_here_empty: "\<not> token_here prev []"
  by (auto simp: token_here_def dest: keyword_facts(1))

lemma match_whole_line:
  assumes nl: "newline \<notin> set s" and m: "roadway_match prev s = Some n"
  shows "n = length s"
proof -
  from roadway_match_Some [OF m] obtain k where
    k: "k \<in> set roadway_keywords" and ne: "k \<noteq> []"
    and kl: "length k \<le> length s"
    and w: "\<forall>j<length k. is_word_char (s ! j)"
    and n: "n = length k + length (takeWhile (\<lambda>c. c \<noteq> newline) (drop (length k) s))"
    by blast
  have "takeWhile (\<lambda>c. c \<noteq> newline) (drop (length k) s) = drop (length k) s"
    using nl by (auto simp: takeWhile_eq_all_conv dest: in_set_dropD)
  with n kl show ?thesis by simp
qed

lemma match_first_line:
  assumes nl: "newline \<notin> set l" and m: "roadway_match prev (l @ newline # rest) = Some n"
  shows "n = length l \<and> l \<noteq> []"
proof -
  from roadway_match_Some [OF m] obtain k where
    k: "k \<in> set roadway_keywords" and ne: "k \<noteq> []"
    and len: "length k \<le> length (l @ newline # rest)"
    and w: "\<forall>j<length k. is_word_char ((l @ newline # rest) ! j)"
    and n: "n = length k +
              length (takeWhile (\<lambda>c. c \<noteq> newline) (drop (length k) (l @ newline # rest)))"
    by blast
  have kl: "length k \<le> length l"
  proof (rule ccontr)
    assume "\<not> length k \<le> length l"
    then have "length l < length k" by simp
    with w have "is_word_char ((l @ newline # rest) ! length l)" by blast
    then show False by (simp add: newline_not_word)
  qed
  have "drop (length k) (l @ newline # rest) = drop (length k) l @ newline # rest"
    using kl by simp
  moreover have "takeWhile (\<lambda>c. c \<noteq> newline) (drop (length k) l @ newline # rest) =
                   drop (length k) l"
    using nl by (auto simp: takeWhile_append dest: in_set_dropD)
  ultimately have "n = length l" using n kl by simp
  moreover have "l \<noteq> []" using ne kl by auto
  ultimately show ?thesis by simp
qed

lemma re_sub_single_line:
  "newline \<notin> set s \<Longrightarrow> re_sub_roadway prev s = cut_from prev s"
proof (induction s arbitrary: prev)
  case Nil
  show ?case by simp
next
  case (Cons c cs)
  show ?case
  proof (cases "roadway_match prev (c # cs)")
    case None
    with Cons show ?thesis by simp
  next
    case (Some n)
    from match_whole_line [OF Cons.prems Some] have "n = length (c # cs)" .
    then show ?thesis using Some by simp
  qed
qed

lemma no_match_at_newline: "roadway_match prev (newline # rest) = None"
proof -
  have "token_here prev ([] @ newline # rest) \<longleftrightarrow> token_here prev []"
    by (rule token_here_line) simp
  then have "\<not> token_here prev (newline # rest)"
    by (simp add: token_here_empty)
  then show ?thesis by (simp add: roadway_match_None_iff)
qed

lemma re_sub_first_line:
  "newline \<notin> set l \<Longrightarrow>
   re_sub_roadway prev (l @ newline # rest) =
     cut_from prev l @ newline # re_sub_roadway (Some newline) rest"
proof (induction l arbitrary: prev)
  case Nil
  show ?case by (simp add: no_match_at_newline)
next
  case (Cons c cs)
  have nl: "newline \<notin> set (c # cs)" by (rule Cons.prems)
  have same: "roadway_match prev ((c # cs) @ newline # rest) = None \<longleftrightarrow>
              roadway_match prev (c # cs) = None"
    by (simp only: roadway_match_None_iff token_here_line [OF nl])
  show ?case
  proof (cases "roadway_match prev ((c # cs) @ newline # rest)")
    case None
    with same have "roadway_match prev (c # cs) = None" by simp
    with None Cons show ?thesis by simp
  next
    case (Some n)
    from match_first_line [OF nl Some] have n: "n = Suc (length cs)" by simp
    from Some same have "roadway_match prev (c # cs) \<noteq> None" by simp
    then show ?thesis
      using Some n by (simp add: no_match_at_newline)
  qed
qed

lemma cut_from_prev:
  "is_word_opt p = is_word_opt q \<Longrightarrow> cut_from p l = cut_from q l"
proof (cases l)
  case Nil
  then show ?thesis by simp
next
  case (Cons c cs)
  assume "is_word_opt p = is_word_opt q"
  then have "token_here p (c # cs) = token_here q (c # cs)"
    by (simp add: token_here_def)
  then have "roadway_match p (c # cs) = None \<longleftrightarrow> roadway_match q (c # cs) = None"
    by (simp add: roadway_match_None_iff)
  then show ?thesis using Cons by simp
qed

lemma token_at_here:
  assumes "i \<le> length l"
  shows "roadway_token_at l i \<longleftrightarrow> token_here (prev_char l i) (drop i l)"
proof -
  have a: "\<And>k. length k \<le> length (drop i l) \<longleftrightarrow> i + length k \<le> length l"
    using assms by auto
  have b: "\<And>n. char_at (drop i l) n = char_at l (i + n)"
    using assms by (auto simp: char_at_def)
  show ?thesis
    unfolding roadway_token_at_def token_here_def list_ex_iff a b by blast
qed

lemma find_in_set: "find P xs = Some x \<Longrightarrow> x \<in> set xs"
  by (induction xs) (auto split: if_splits)

lemma cut_from_find:
  "cut_from (prev_char (pre @ suf) (length pre)) suf =
     (case find (roadway_token_at (pre @ suf)) [length pre..<length pre + length suf] of
        None \<Rightarrow> suf | Some i \<Rightarrow> take (i - length pre) suf)"
proof (induction suf arbitrary: pre)
  case Nil
  show ?case by simp
next
  case (Cons c cs)
  let ?l = "pre @ c # cs"
  let ?m = "length pre"
  have range: "[?m..<?m + length (c # cs)] = ?m # [Suc ?m..<Suc ?m + length cs]"
    using upt_conv_Cons [of ?m "?m + length (c # cs)"] by (simp del: upt_Suc)
  have "roadway_token_at ?l ?m \<longleftrightarrow> token_here (prev_char ?l ?m) (drop ?m ?l)"
    by (rule token_at_here) simp
  then have tok: "roadway_token_at ?l ?m \<longleftrightarrow> roadway_match (prev_char ?l ?m) (c # cs) \<noteq> None"
    by (simp add: roadway_match_None_iff)
  show ?case
  proof (cases "roadway_token_at ?l ?m")
    case True
    with tok show ?thesis unfolding range by simp
  next
    case False
    have pc: "prev_char ((pre @ [c]) @ cs) (length (pre @ [c])) = Some c"
      by (simp add: prev_char_def char_at_def nth_append)
    have ih: "cut_from (Some c) cs =
        (case find (roadway_token_at ?l) [Suc ?m..<Suc ?m + length cs] of
           None \<Rightarrow> cs | Some i \<Rightarrow> take (i - Suc ?m) cs)"
      using Cons.IH [of "pre @ [c]"] unfolding pc
      by (simp del: upt_Suc cong: option.case_cong)
    have cf: "cut_from (prev_char ?l ?m) (c # cs) = c # cut_from (Some c) cs"
      using False tok by simp
    show ?thesis
    proof (cases "find (roadway_token_at ?l) [Suc ?m..<Suc ?m + length cs]")
      case None
      then show ?thesis
        unfolding cf ih range using False by simp
    next
      case (Some i)
      from find_in_set [OF Some] have "Suc ?m \<le> i" by (simp del: upt_Suc)
      then have "take (i - ?m) (c # cs) = c # take (i - Suc ?m) cs"
        by (simp add: take_Cons' Suc_diff_le)
      then show ?thesis
        unfolding cf ih range using False Some by simp
    qed
  qed
qed

lemma cut_from_None: "cut_from None l = cut_line l"
  using cut_from_find [of "[]" l] by (simp add: prev_char_def cut_line_def split: option.split)

lemma join_Cons: "ys \<noteq> [] \<Longrightarrow> join sep (x # ys) = x @ sep @ join sep ys"
  by (cases ys) simp_all

lemma re_sub_lines:
  "\<not> is_word_opt prev \<Longrightarrow>
   re_sub_roadway prev s = join [newline] (map cut_line (split_on newline s))"
proof (induction s arbitrary: prev rule: length_induct)
  case (1 s)
  have p: "is_word_opt prev = is_word_opt None"
    using "1.prems" by (simp add: is_word_opt_def)
  show ?case
  proof (cases "newline \<in> set s")
    case False
    have "re_sub_roadway prev s = cut_from prev s" by (rule re_sub_single_line [OF False])
    also have "\<dots> = cut_from None s" by (rule cut_from_prev [OF p])
    also have "\<dots> = cut_line s" by (rule cut_from_None)
    finally show ?thesis using False by (simp add: split_on_notin)
  next
    case True
    from split_list_first [OF True] obtain l rest where
      s: "s = l @ newline # rest" and nl: "newline \<notin> set l" by blast
    have shorter: "length rest < length s" using s by simp
    have nw: "\<not> is_word_opt (Some newline)"
      by (simp add: is_word_opt_def newline_not_word)
    from "1.IH" shorter nw
    have ih: "re_sub_roadway (Some newline) rest =
                join [newline] (map cut_line (split_on newline rest))"
      by blast
    have "re_sub_roadway prev s =
            cut_from prev l @ newline # re_sub_roadway (Some newline) rest"
      unfolding s by (rule re_sub_first_line [OF nl])
    also have "cut_from prev l = cut_line l"
      using cut_from_prev [OF p, of l] by (simp add: cut_from_None)
    finally have "re_sub_roadway prev s =
            cut_line l @ [newline] @ join [newline] (map cut_line (split_on newline rest))"
      using ih by simp
    moreover have "map cut_line (split_on newline s) =
                     cut_line l # map cut_line (split_on newline rest)"
      unfolding s by (simp add: split_on_first [OF nl])
    moreover have "map cut_line (split_on newline rest) \<noteq> []"
      by (simp add: split_on_nonempty)
    ultimately show ?thesis by (simp add: join_Cons)
  qed
qed

text \<open>
  Claim C3, amended. For every location string: if it contains a comma, location cleanup
  returns exactly the text after the last comma, trimmed. Otherwise it works line by line:
  on every line of the string (the lines are the pieces between line feeds) it removes the
  first roadway token ("highway", "road", "street", "main", "lane") matched as a whole word
  case-insensitively together with the rest of that line, it keeps the line feeds, and it
  trims the result. For a string with no line feed this is the claim as written: the first
  roadway token and everything after it are removed, then the rest is trimmed. The
  instances that follow are the two examples of the claim, "123 Main Road, Springfield"
  giving "Springfield" and "MG Road Extension" giving "MG", and one string of two lines.
\<close>

theorem clean_location_by_lines:
  "clean_location s =
     (if CHR '','' \<in> set s then strip (rev (takeWhile (\<lambda>c. c \<noteq> CHR '','') (rev s)))
      else strip (join [newline] (map cut_line (split_on newline s)))) \<and>
   (newline \<notin> set s \<longrightarrow> clean_location s = spec_clean_location s)"
proof -
  have none: "\<not> is_word_opt None" by (simp add: is_word_opt_def)
  have e: "cut_line [] = []" by (simp add: cut_line_def)
  have a: "clean_location s =
     (if CHR '','' \<in> set s then strip (rev (takeWhile (\<lambda>c. c \<noteq> CHR '','') (rev s)))
      else strip (join [newline] (map cut_line (split_on newline s))))"
  proof (cases "s = []")
    case True
    then show ?thesis by (simp add: clean_location_def e strip_def)
  next
    case False
    then show ?thesis
      by (simp add: clean_location_def last_split_on re_sub_lines [OF none])
  qed
  have b: "newline \<notin> set s \<longrightarrow> clean_location s = spec_clean_location s"
    unfolding a by (simp add: spec_clean_location_def split_on_notin)
  from a b show ?thesis by blast
qed

theorem clean_location_by_lines_witness:
  "clean_location ''123 Main Road, Springfield'' = ''Springfield'' \<and>
   newline \<notin> set ''MG Road Extension'' \<and>
   clean_location ''MG Road Extension'' = ''MG'' \<and>
   clean_location (''MG Road'' @ [newline] @ ''Pune main bazaar'') =
     ''MG '' @ [newline] @ ''Pune''"
proof -
  have n: "newline \<notin> set ''MG Road Extension''" by simp
  have r1: "(if CHR '','' \<in> set ''123 Main Road, Springfield''
             then strip (rev (takeWhile (\<lambda>c. c \<noteq> CHR '','') (rev ''123 Main Road, Springfield'')))
             else strip (join [newline] (map cut_line
                    (split_on newline ''123 Main Road, Springfield'')))) = ''Springfield''"
    by code_simp
  have r2: "spec_clean_location ''MG Road Extension'' = ''MG''" by code_simp
  have r3: "(if CHR '','' \<in> set (''MG Road'' @ [newline] @ ''Pune main bazaar'')
             then strip (rev (takeWhile (\<lambda>c. c \<noteq> CHR '','')
                    (rev (''MG Road'' @ [newline] @ ''Pune main bazaar''))))
             else strip (join [newline] (map cut_line
                    (split_on newline (''MG Road'' @ [newline] @ ''Pune main bazaar''))))) =
            ''MG '' @ [newline] @ ''Pune''"
    by code_simp
  from clean_location_by_lines [of "''123 Main Road, Springfield''"] r1
  have w1: "clean_location ''123 Main Road, Springfield'' = ''Springfield''" by simp
  from clean_location_by_lines [of "''MG Road Extension''"] n
  have "clean_location ''MG Road Extension'' = spec_clean_location ''MG Road Extension''"
    by blast
  with r2 have w2: "clean_location ''MG Road Extension'' = ''MG''" by simp
  from clean_location_by_lines [of "''MG Road'' @ [newline] @ ''Pune main bazaar''"] r3
  have w3: "clean_location (''MG Road'' @ [newline] @ ''Pune main bazaar'') =
     ''MG '' @ [newline] @ ''Pune''" by simp
  from n w1 w2 w3 show ?thesis by blast
qed

text \<open>
  Claim C3 as stated fails on a string of two lines: in "MG Road", line feed, "Pune" the
  token "Road" stands at position 3 and the claim removes everything after it, which
  leaves "MG"; the pattern of the program is compiled without \<^verbatim>\<open>re.DOTALL\<close>, its
  \<^verbatim>\<open>.*\<close> stops at the line feed, and the second line is kept.
\<close>

theorem second_line_kept_counterexample:
  "CHR '','' \<notin> set (''MG Road'' @ [newline] @ ''Pune'') \<and>
   roadway_token_at (''MG Road'' @ [newline] @ ''Pune'') 3 \<and>
   spec_clean_location (''MG Road'' @ [newline] @ ''Pune'') = ''MG'' \<and>
   clean_location (''MG Road'' @ [newline] @ ''Pune'') = ''MG '' @ [newline] @ ''Pune'' \<and>
   clean_location (''MG Road'' @ [newline] @ ''Pune'') \<noteq>
     spec_clean_location (''MG Road'' @ [newline] @ ''Pune'')"
  by code_simp

end
